theory Spec2Isabelle
  imports
    Main
    "HOL-Library.Word"
    "HOL-Library.Char_ord"
    "HOL-Library.Multiset"
    "HOL-Library.Sublist"
begin

unbundle bit_operations_syntax

section \<open>Data model of glgen.cpp\<close>

text \<open>
  A \<^verbatim>\<open>char*\<close> into a NUL-terminated buffer is modelled by the list of bytes from the
  pointer to the end of that buffer (the terminator itself is not stored).  Reading
  through the pointer at an index below the length yields the stored byte, reading at
  the length yields the terminator.  Two pointers into the same buffer differ by the
  difference of the lengths of their lists.
\<close>

type_synonym u32 = "32 word"
type_synonym u64 = "64 word"

definition NUL :: char where
  "NUL = CHR 0x00"

text \<open>\<^verbatim>\<open>*p\<close> for a pointer into a NUL-terminated buffer.\<close>

definition deref :: "string \<Rightarrow> char" where
  "deref p = (case p of [] \<Rightarrow> NUL | c # _ \<Rightarrow> c)"

text \<open>\<^verbatim>\<open>p[i]\<close>: \<open>None\<close> when the index lies beyond the terminator, outside the buffer.\<close>

definition index_opt :: "string \<Rightarrow> nat \<Rightarrow> char option" where
  "index_opt p i =
     (if i < length p then Some (p ! i) else if i = length p then Some NUL else None)"

text \<open>
  \<^verbatim>\<open>p[i]\<close> where the source stays inside the slice it was handed: every read of the
  hashing and comparison loops is at an index below the slice's length.
\<close>

definition char_at :: "string \<Rightarrow> nat \<Rightarrow> char" where
  "char_at p i = (if i < length p then p ! i else NUL)"

text \<open>\<^verbatim>\<open>struct GLString { char* Chars; unsigned int Length; }\<close>\<close>

record GLString =
  Chars :: string
  Length :: nat

text \<open>\<^verbatim>\<open>struct GLToken { GLString Value; unsigned int Hash; }\<close>\<close>

record GLToken =
  Value :: GLString
  Hash :: u32

text \<open>\<^verbatim>\<open>struct GLArbToken\<close>: one registry declaration.\<close>

record GLArbToken =
  Value :: GLString
  Line :: GLString
  ReturnType :: GLString
  FunctionName :: GLString
  Parameters :: GLString
  Hash :: u32

text \<open>The bytes a slice denotes: \<^verbatim>\<open>Chars[0 .. Length-1]\<close>.\<close>

definition bytes_of :: "GLString \<Rightarrow> string" where
  "bytes_of s = map (char_at (Chars s)) [0..<Length s]"

text \<open>A zero-initialised slice (\<^verbatim>\<open>= {}\<close>, \<^verbatim>\<open>calloc\<close>): null pointer, length 0.\<close>

definition GLString_zero :: GLString where
  "GLString_zero = \<lparr>Chars = [], Length = 0\<rparr>"

definition GLToken_zero :: GLToken where
  "GLToken_zero = \<lparr>GLToken.Value = GLString_zero, GLToken.Hash = 0\<rparr>"

definition GLArbToken_zero :: GLArbToken where
  "GLArbToken_zero =
     \<lparr>GLArbToken.Value = GLString_zero, Line = GLString_zero, ReturnType = GLString_zero,
      FunctionName = GLString_zero, Parameters = GLString_zero, GLArbToken.Hash = 0\<rparr>"

section \<open>Character classes\<close>

definition IsWhitespace :: "char \<Rightarrow> bool" where
  "IsWhitespace c = (c = CHR '' '' \<or> c = CHR 0x09 \<or> c = CHR 0x0B \<or> c = CHR 0x0C)"

definition IsNewline :: "char \<Rightarrow> bool" where
  "IsNewline c = (c = CHR 0x0D \<or> c = CHR 0x0A)"

definition IsWhitespaceOrNewline :: "char \<Rightarrow> bool" where
  "IsWhitespaceOrNewline c = (IsNewline c \<or> IsWhitespace c)"

definition IsIdentifier :: "char \<Rightarrow> bool" where
  "IsIdentifier c =
     ((c \<ge> CHR ''a'' \<and> c \<le> CHR ''z'') \<or>
      (c \<ge> CHR ''A'' \<and> c \<le> CHR ''Z'') \<or>
      (c \<ge> CHR ''0'' \<and> c \<le> CHR ''9'') \<or>
      c = CHR ''_'' \<or> c = CHR ''#'' \<or> c = CHR ''*'')"

definition IsUpperCase :: "char \<Rightarrow> bool" where
  "IsUpperCase C = (C \<ge> CHR ''A'' \<and> C \<le> CHR ''Z'')"

section \<open>The string hash\<close>

text \<open>
  \<^verbatim>\<open>GetStringHash\<close>: the \<^verbatim>\<open>for\<close> loop over \<^verbatim>\<open>Idx\<close>, with the accumulator
  \<^verbatim>\<open>Result\<close> an \<^verbatim>\<open>unsigned int\<close>; the byte is read as \<^verbatim>\<open>unsigned char\<close>.
\<close>

function GetStringHash_loop :: "GLString \<Rightarrow> nat \<Rightarrow> u32 \<Rightarrow> u32" where
  "GetStringHash_loop String Idx Result =
     (if Idx < Length String
      then GetStringHash_loop String (Idx + 1)
             ((Result * 0x01000193) XOR of_nat (of_char (char_at (Chars String) Idx)))
      else Result)"
  by pat_completeness auto
termination
  by (relation "measure (\<lambda>(String, Idx, Result). Length String - Idx)") auto

declare GetStringHash_loop.simps [simp del]

definition GetStringHash :: "GLString \<Rightarrow> u32" where
  "GetStringHash String = GetStringHash_loop String 0 1"

text \<open>
  The hash as the specification words it: seed 1, and per byte multiply by
  \<^verbatim>\<open>0x01000193\<close> modulo \<open>2^32\<close>, then XOR the byte in.
\<close>

definition spec_hash_step :: "u32 \<Rightarrow> char \<Rightarrow> u32" where
  "spec_hash_step h b = (h * 0x01000193) XOR of_nat (of_char b)"

definition spec_hash :: "string \<Rightarrow> u32" where
  "spec_hash s = foldl spec_hash_step 1 s"

section \<open>String comparison\<close>

text \<open>
  \<^verbatim>\<open>StartsWith(Token, Prefix)\<close>: the loop runs while \<^verbatim>\<open>Index < Token.Length && *Prefix\<close>
  and clears the result at the first differing byte.
\<close>

function StartsWith_loop :: "GLString \<Rightarrow> string \<Rightarrow> nat \<Rightarrow> bool" where
  "StartsWith_loop Token Prefix Index =
     (if Index < Length Token \<and> deref Prefix \<noteq> NUL
      then (if deref Prefix \<noteq> char_at (Chars Token) Index then False
            else StartsWith_loop Token (tl Prefix) (Index + 1))
      else True)"
  by pat_completeness auto
termination
  by (relation "measure (\<lambda>(Token, Prefix, Index). Length Token - Index)") auto

declare StartsWith_loop.simps [simp del]

definition StartsWith :: "GLString \<Rightarrow> string \<Rightarrow> bool" where
  "StartsWith Token Prefix = (Length Token > 0 \<and> StartsWith_loop Token Prefix 0)"

text \<open>
  \<^verbatim>\<open>Equal(Token, Value)\<close>: the loop returns the value of \<^verbatim>\<open>Index\<close> at which it stops
  (at the break, at the end of the token, or at the terminator of \<^verbatim>\<open>Value\<close>); the
  result assigned after the loop is \<^verbatim>\<open>Index == Token.Length\<close>.
\<close>

function Equal_loop :: "GLString \<Rightarrow> string \<Rightarrow> nat \<Rightarrow> nat" where
  "Equal_loop Token Val Index =
     (if Index < Length Token \<and> deref Val \<noteq> NUL
      then (if deref Val \<noteq> char_at (Chars Token) Index then Index
            else Equal_loop Token (tl Val) (Index + 1))
      else Index)"
  by pat_completeness auto
termination
  by (relation "measure (\<lambda>(Token, Val, Index). Length Token - Index)") auto

declare Equal_loop.simps [simp del]

definition Equal :: "GLString \<Rightarrow> string \<Rightarrow> bool" where
  "Equal Token Val =
     (if Length Token \<noteq> 0 then Equal_loop Token Val 0 = Length Token else False)"

section \<open>The fixed-capacity symbol table\<close>

text \<open>
  \<^verbatim>\<open>#define TOKEN_HASH_SIZE 8192\<close>.  A table is the list of its slots; every table of
  the program is allocated with \<^verbatim>\<open>calloc(sizeof(...), TOKEN_HASH_SIZE)\<close>.  A pointer
  \<^verbatim>\<open>Matching = TokenHash + Index\<close> into a table is modelled by \<^verbatim>\<open>Index\<close>.
\<close>

definition TOKEN_HASH_SIZE :: nat where
  "TOKEN_HASH_SIZE = 8192"

definition calloc_GLToken :: "GLToken list" where
  "calloc_GLToken = replicate TOKEN_HASH_SIZE GLToken_zero"

definition calloc_GLArbToken :: "GLArbToken list" where
  "calloc_GLArbToken = replicate TOKEN_HASH_SIZE GLArbToken_zero"

text \<open>
  The probe loop of \<^verbatim>\<open>AddToken(GLArbToken*, GLArbToken&)\<close>:
  \<^verbatim>\<open>while(Matching->Hash && Iterations++ < TOKEN_HASH_SIZE)\<close>.  The increment of
  \<^verbatim>\<open>Iterations\<close> happens only when the slot is occupied, also on the test that fails.
  The loop returns the final \<^verbatim>\<open>Index\<close> and \<^verbatim>\<open>Iterations\<close>.
\<close>

function AddToken_Arb_probe :: "GLArbToken list \<Rightarrow> u32 \<Rightarrow> nat \<Rightarrow> u32 \<times> nat" where
  "AddToken_Arb_probe TokenHash Index Iterations =
     (if GLArbToken.Hash (TokenHash ! unat Index) \<noteq> 0
      then (if Iterations < TOKEN_HASH_SIZE
            then AddToken_Arb_probe TokenHash
                   ((Index + 1) AND (of_nat TOKEN_HASH_SIZE - 1)) (Iterations + 1)
            else (Index, Iterations + 1))
      else (Index, Iterations))"
  by pat_completeness auto
termination
  by (relation "measure (\<lambda>(TokenHash, Index, Iterations). TOKEN_HASH_SIZE - Iterations)") auto

declare AddToken_Arb_probe.simps [simp del]

text \<open>
  \<^verbatim>\<open>GLArbToken* AddToken(GLArbToken* TokenHash, GLArbToken& Token)\<close>: returns the slot
  written (\<open>Some\<close> of its index) or the null pointer (\<open>None\<close>), and the table.
\<close>

definition AddToken_Arb :: "GLArbToken list \<Rightarrow> GLArbToken \<Rightarrow> nat option \<times> GLArbToken list" where
  "AddToken_Arb TokenHash Token =
     (let Index = GLArbToken.Hash Token AND (of_nat TOKEN_HASH_SIZE - 1);
          (Matching, Iterations) = AddToken_Arb_probe TokenHash Index 0
      in if Iterations < TOKEN_HASH_SIZE
         then (Some (unat Matching), TokenHash[unat Matching := Token])
         else (None, TokenHash))"

text \<open>The probe loop of \<^verbatim>\<open>AddToken(GLToken*, GLToken&)\<close>, the same loop on the other slot type.\<close>

function AddToken_probe :: "GLToken list \<Rightarrow> u32 \<Rightarrow> nat \<Rightarrow> u32 \<times> nat" where
  "AddToken_probe TokenHash Index Iterations =
     (if GLToken.Hash (TokenHash ! unat Index) \<noteq> 0
      then (if Iterations < TOKEN_HASH_SIZE
            then AddToken_probe TokenHash
                   ((Index + 1) AND (of_nat TOKEN_HASH_SIZE - 1)) (Iterations + 1)
            else (Index, Iterations + 1))
      else (Index, Iterations))"
  by pat_completeness auto
termination
  by (relation "measure (\<lambda>(TokenHash, Index, Iterations). TOKEN_HASH_SIZE - Iterations)") auto

declare AddToken_probe.simps [simp del]

text \<open>
  \<^verbatim>\<open>int AddToken(GLToken* TokenHash, GLToken& Token)\<close>: \<^verbatim>\<open>Result\<close> is initialised to 0
  and never assigned again.
\<close>

definition AddToken :: "GLToken list \<Rightarrow> GLToken \<Rightarrow> int \<times> GLToken list" where
  "AddToken TokenHash Token =
     (let Index = GLToken.Hash Token AND (of_nat TOKEN_HASH_SIZE - 1);
          Result = 0;
          (Matching, Iterations) = AddToken_probe TokenHash Index 0
      in if Iterations < TOKEN_HASH_SIZE
         then (Result, TokenHash[unat Matching := Token])
         else (Result, TokenHash))"

text \<open>\<^verbatim>\<open>strlen\<close>: the number of bytes before the terminator.\<close>

definition strlen :: "string \<Rightarrow> nat" where
  "strlen p = length (takeWhile (\<lambda>c. c \<noteq> NUL) p)"

text \<open>
  \<^verbatim>\<open>AddCustomToken\<close> declares \<^verbatim>\<open>GLToken Token;\<close> and assigns only \<^verbatim>\<open>Token.Hash\<close>:
  \<^verbatim>\<open>Token.Value\<close> stays uninitialised.  \<open>Uninit\<close> is whatever it holds.
\<close>

definition AddCustomToken :: "GLToken list \<Rightarrow> string \<Rightarrow> GLString \<Rightarrow> GLToken list" where
  "AddCustomToken TokenHash Val Uninit =
     (let String = \<lparr>Chars = Val, Length = strlen Val\<rparr>;
          Token = \<lparr>GLToken.Value = Uninit, GLToken.Hash = GetStringHash String\<rparr>
      in snd (AddToken TokenHash Token))"

text \<open>
  The loop of \<^verbatim>\<open>GetToken\<close>; it returns the final \<^verbatim>\<open>Index\<close> (the slot \<^verbatim>\<open>Matching\<close>
  points to when the loop is left).
\<close>

function GetToken_loop :: "GLArbToken list \<Rightarrow> u32 \<Rightarrow> u32 \<Rightarrow> nat \<Rightarrow> u32" where
  "GetToken_loop TokenHash QueryHash Index Iterations =
     (if GLArbToken.Hash (TokenHash ! unat Index) \<noteq> 0 \<and> Iterations < TOKEN_HASH_SIZE
      then (if GLArbToken.Hash (TokenHash ! unat Index) = QueryHash then Index
            else GetToken_loop TokenHash QueryHash
                   ((Index + 1) AND (of_nat TOKEN_HASH_SIZE - 1)) (Iterations + 1))
      else Index)"
  by pat_completeness auto
termination
  by (relation "measure (\<lambda>(TokenHash, QueryHash, Index, Iterations). TOKEN_HASH_SIZE - Iterations)")
    auto

declare GetToken_loop.simps [simp del]

text \<open>\<^verbatim>\<open>GLArbToken* GetToken(GLArbToken* TokenHash, unsigned int Hash)\<close>\<close>

definition GetToken :: "GLArbToken list \<Rightarrow> u32 \<Rightarrow> nat option" where
  "GetToken TokenHash QueryHash =
     (if QueryHash \<noteq> 0
      then (let Index = QueryHash AND (of_nat TOKEN_HASH_SIZE - 1);
                Matching = GetToken_loop TokenHash QueryHash Index 0
            in if GLArbToken.Hash (TokenHash ! unat Matching) \<noteq> QueryHash then None
               else Some (unat Matching))
      else None)"

text \<open>The loop of \<^verbatim>\<open>Contains\<close>; it returns \<^verbatim>\<open>Result\<close>.\<close>

function Contains_loop :: "GLToken list \<Rightarrow> GLToken \<Rightarrow> u32 \<Rightarrow> nat \<Rightarrow> bool" where
  "Contains_loop TokenHash Token Index Iterations =
     (if GLToken.Hash (TokenHash ! unat Index) \<noteq> 0 \<and> Iterations < TOKEN_HASH_SIZE
      then (if GLToken.Hash (TokenHash ! unat Index) = GLToken.Hash Token then True
            else Contains_loop TokenHash Token
                   ((Index + 1) AND (of_nat TOKEN_HASH_SIZE - 1)) (Iterations + 1))
      else False)"
  by pat_completeness auto
termination
  by (relation "measure (\<lambda>(TokenHash, Token, Index, Iterations). TOKEN_HASH_SIZE - Iterations)")
    auto

declare Contains_loop.simps [simp del]

definition Contains :: "GLToken list \<Rightarrow> GLToken \<Rightarrow> bool" where
  "Contains TokenHash Token =
     Contains_loop TokenHash Token (GLToken.Hash Token AND (of_nat TOKEN_HASH_SIZE - 1)) 0"

text \<open>\<^verbatim>\<open>TokenComparer\<close>, the comparison function handed to \<^verbatim>\<open>qsort\<close>.\<close>

definition TokenComparer :: "GLToken \<Rightarrow> GLToken \<Rightarrow> int" where
  "TokenComparer T1 T2 =
     (if GLToken.Hash T1 > GLToken.Hash T2 then - 1
      else if GLToken.Hash T2 > GLToken.Hash T1 then 1
      else 0)"

section \<open>Probe sequences\<close>

text \<open>
  Proof devices: the two probe loops of the table on the bare list of stored hashes, the
  \<open>k\<close>-th slot of the probe cycle that starts at \<open>Index\<close>, and the whole cycle of a
  hash in the order the loops visit it.
\<close>

function probe_free :: "u32 list \<Rightarrow> u32 \<Rightarrow> nat \<Rightarrow> u32 \<times> nat" where
  "probe_free hs Index Iterations =
     (if hs ! unat Index \<noteq> 0
      then (if Iterations < TOKEN_HASH_SIZE
            then probe_free hs ((Index + 1) AND (of_nat TOKEN_HASH_SIZE - 1)) (Iterations + 1)
            else (Index, Iterations + 1))
      else (Index, Iterations))"
  by pat_completeness auto
termination
  by (relation "measure (\<lambda>(hs, Index, Iterations). TOKEN_HASH_SIZE - Iterations)") auto

declare probe_free.simps [simp del]

function probe_stop :: "u32 list \<Rightarrow> u32 \<Rightarrow> u32 \<Rightarrow> nat \<Rightarrow> u32 \<times> bool" where
  "probe_stop hs q Index Iterations =
     (if hs ! unat Index \<noteq> 0 \<and> Iterations < TOKEN_HASH_SIZE
      then (if hs ! unat Index = q then (Index, True)
            else probe_stop hs q ((Index + 1) AND (of_nat TOKEN_HASH_SIZE - 1)) (Iterations + 1))
      else (Index, False))"
  by pat_completeness auto
termination
  by (relation "measure (\<lambda>(hs, q, Index, Iterations). TOKEN_HASH_SIZE - Iterations)") auto

declare probe_stop.simps [simp del]

definition slot :: "u32 \<Rightarrow> nat \<Rightarrow> nat" where
  "slot Index k = (unat Index + k) mod TOKEN_HASH_SIZE"

definition probe_order :: "u32 \<Rightarrow> nat list" where
  "probe_order h =
     map (\<lambda>k. (unat (h AND (of_nat TOKEN_HASH_SIZE - 1)) + k) mod TOKEN_HASH_SIZE)
       [0..<TOKEN_HASH_SIZE]"

section \<open>Sorting the result sets\<close>

text \<open>
  \<^verbatim>\<open>qsort\<close> is the C library's; the program relies on its contract only: afterwards the
  array holds the elements it held before, ordered so that the comparison function is
  not positive on any pair in array order.  The order of elements that compare equal is
  unspecified.
\<close>

definition qsort_post :: "('a \<Rightarrow> 'a \<Rightarrow> int) \<Rightarrow> 'a list \<Rightarrow> 'a list \<Rightarrow> bool" where
  "qsort_post compar before after =
     (mset after = mset before \<and> sorted_wrt (\<lambda>a b. compar a b \<le> 0) after)"

text \<open>A \<^verbatim>\<open>qsort\<close> that keeps the contract wherever the program calls it.\<close>

definition qsort_contract ::
  "((GLToken \<Rightarrow> GLToken \<Rightarrow> int) \<Rightarrow> GLToken list \<Rightarrow> GLToken list) \<Rightarrow> bool" where
  "qsort_contract sorter = (\<forall>xs. qsort_post TokenComparer xs (sorter TokenComparer xs))"

text \<open>Sorting by insertion, one function that keeps it.\<close>

fun insert_by :: "('a \<Rightarrow> 'a \<Rightarrow> int) \<Rightarrow> 'a \<Rightarrow> 'a list \<Rightarrow> 'a list" where
  "insert_by compar x [] = [x]"
| "insert_by compar x (y # ys) =
     (if compar x y \<le> 0 then x # y # ys else y # insert_by compar x ys)"

definition sort_by :: "('a \<Rightarrow> 'a \<Rightarrow> int) \<Rightarrow> 'a list \<Rightarrow> 'a list" where
  "sort_by compar xs = foldr (insert_by compar) xs []"

text \<open>A result set after the inserts of a list of accepted tokens, in the order given.\<close>

definition insert_all :: "GLToken list \<Rightarrow> GLToken list \<Rightarrow> GLToken list" where
  "insert_all Tokens TokenHash = fold (\<lambda>Token T. snd (AddToken T Token)) Tokens TokenHash"

section \<open>Settings, files and diagnostics\<close>

text \<open>
  \<^verbatim>\<open>struct GLSettings\<close>, as \<^verbatim>\<open>ParseCommandLine\<close> leaves it.  \<^verbatim>\<open>HeadersStart\<close> and
  \<^verbatim>\<open>HeadersEnd\<close> delimit the registry file names, separated by NUL bytes: the list
  \<open>Headers\<close>.  An array with its count (\<^verbatim>\<open>Inputs\<close>/\<^verbatim>\<open>InputCount\<close>,
  \<^verbatim>\<open>Ignores\<close>/\<^verbatim>\<open>IgnoreCount\<close>) is a list.  \<^verbatim>\<open>Prefix\<close> may be the null pointer.
\<close>

record GLSettings =
  Headers :: "string list"
  Output :: string
  Prefix :: "string option"
  Inputs :: "string list"
  Ignores :: "string list"
  WriteTimestamp :: u64
  Boilerplate :: bool
  Silent :: bool
  ForceGenerate :: bool

text \<open>
  The files the program can open for reading, by name, with their bytes
  (\<^verbatim>\<open>fopen(Filename, "r")\<close> fails on \<open>None\<close>; \<^verbatim>\<open>ftell\<close> at the end is the number of
  bytes).
\<close>

type_synonym filesystem = "string \<Rightarrow> string option"

text \<open>
  Ways the C program leaves defined behaviour or aborts: a read outside a buffer, a write
  through the null pointer, \<^verbatim>\<open>sprintf\<close> beyond a 512-byte array, a failed \<^verbatim>\<open>assert\<close>.
\<close>

datatype fault = OutOfBounds | NullDereference | BufferOverflow | AssertionFailed

text \<open>The terminal colours of the build that is not \<^verbatim>\<open>_WIN32\<close>.\<close>

definition TermColorYellow :: string where
  "TermColorYellow = [CHR 0x1B] @ ''[33m''"

definition TermColorReset :: string where
  "TermColorReset = [CHR 0x1B] @ ''[0m''"

definition TermColorGreen :: string where
  "TermColorGreen = [CHR 0x1B] @ ''[32m''"

text \<open>
  \<^verbatim>\<open>printf("%.*s", Length, Chars)\<close>: at most \<^verbatim>\<open>Length\<close> bytes, stopping at a NUL byte;
  \<^verbatim>\<open>printf("%s", p)\<close>: the bytes before the terminator.
\<close>

definition printf_slice :: "GLString \<Rightarrow> string" where
  "printf_slice s = takeWhile (\<lambda>c. c \<noteq> NUL) (bytes_of s)"

definition printf_str :: "string \<Rightarrow> string" where
  "printf_str p = takeWhile (\<lambda>c. c \<noteq> NUL) p"

section \<open>The tokenizers\<close>

text \<open>
  \<^verbatim>\<open>while(*At && (IsWhitespaceOrNewline(*At) || !IsIdentifier(*At))) At++\<close>, on the
  cursor \<^verbatim>\<open>Tokenizer->At\<close>.
\<close>

fun skip_to_identifier :: "string \<Rightarrow> string" where
  "skip_to_identifier [] = []"
| "skip_to_identifier (c # cs) =
     (if c \<noteq> NUL \<and> (IsWhitespaceOrNewline c \<or> \<not> IsIdentifier c)
      then skip_to_identifier cs else c # cs)"

text \<open>\<^verbatim>\<open>while(*At && IsIdentifier(*At)) At++\<close>\<close>

fun skip_identifier :: "string \<Rightarrow> string" where
  "skip_identifier [] = []"
| "skip_identifier (c # cs) =
     (if c \<noteq> NUL \<and> IsIdentifier c then skip_identifier cs else c # cs)"

text \<open>\<^verbatim>\<open>ParseToken\<close>: the token and the advanced cursor.\<close>

definition ParseToken :: "string \<Rightarrow> GLToken \<times> string" where
  "ParseToken At =
     (let Start = skip_to_identifier At;
          At' = skip_identifier Start;
          Val = \<lparr>Chars = Start, Length = length Start - length At'\<rparr>
      in (\<lparr>GLToken.Value = Val, GLToken.Hash = GetStringHash Val\<rparr>, At'))"

text \<open>
  \<^verbatim>\<open>ParseArbToken\<close>: as \<^verbatim>\<open>ParseToken\<close>, without the hash (the token is zero-initialised),
  and a token directly followed by a whitespace byte and \<^verbatim>\<open>*\<close> takes these two bytes in.
\<close>

definition ParseArbToken :: "string \<Rightarrow> GLArbToken \<times> string" where
  "ParseArbToken At =
     (let Start = skip_to_identifier At;
          At' = skip_identifier Start;
          Len = length Start - length At'
      in if IsWhitespace (deref At') \<and> deref (tl At') = CHR ''*''
         then (GLArbToken_zero\<lparr>GLArbToken.Value := \<lparr>Chars = Start, Length = Len + 2\<rparr>\<rparr>,
               tl (tl At'))
         else (GLArbToken_zero\<lparr>GLArbToken.Value := \<lparr>Chars = Start, Length = Len\<rparr>\<rparr>, At'))"

text \<open>\<^verbatim>\<open>AdvanceToEndOfLine\<close>: \<^verbatim>\<open>while(*At && !IsNewline(*At)) At++\<close>\<close>

fun AdvanceToEndOfLine :: "string \<Rightarrow> string" where
  "AdvanceToEndOfLine [] = []"
| "AdvanceToEndOfLine (c # cs) =
     (if c \<noteq> NUL \<and> \<not> IsNewline c then AdvanceToEndOfLine cs else c # cs)"

section \<open>Reading files\<close>

text \<open>\<^verbatim>\<open>ReadEntireFile\<close>: the buffer, or the null pointer and a line on \<^verbatim>\<open>stderr\<close>.\<close>

definition ReadEntireFile :: "filesystem \<Rightarrow> string \<Rightarrow> string option \<times> string list" where
  "ReadEntireFile fs Filename =
     (case fs Filename of
        Some content \<Rightarrow>
          if length content > 0 then (Some content, [])
          else (None, [''File is empty: '' @ printf_str Filename])
      | None \<Rightarrow> (None, [''Couldn'' @ [CHR 0x27] @ ''t open file: '' @ printf_str Filename]))"

text \<open>
  The loop of \<^verbatim>\<open>ReadMultiFiles\<close> over the file names.  \<open>buf\<close> is the block \<^verbatim>\<open>Result\<close>
  points to, all of its \<^verbatim>\<open>RunningSize\<close> bytes with the terminators written so far
  (empty while \<^verbatim>\<open>Result\<close> is null).  A file with bytes is read in behind the block and
  terminated; then, if the block was not empty, the bytes at \<^verbatim>\<open>RunningSize-2\<close> and
  \<^verbatim>\<open>RunningSize-1\<close> are set to the newline.
\<close>

fun ReadMultiFiles_loop ::
  "filesystem \<Rightarrow> string list \<Rightarrow> string \<Rightarrow> string list \<Rightarrow> string \<times> string list" where
  "ReadMultiFiles_loop fs [] buf err = (buf, err)"
| "ReadMultiFiles_loop fs (Filename # rest) buf err =
     (case fs Filename of
        Some content \<Rightarrow>
          if length content > 0
          then (let RunningSize = length buf;
                    grown = buf @ content @ [NUL];
                    patched = (if RunningSize \<noteq> 0
                               then grown[RunningSize - 2 := CHR 0x0A, RunningSize - 1 := CHR 0x0A]
                               else grown)
                in ReadMultiFiles_loop fs rest patched err)
          else ReadMultiFiles_loop fs rest buf
                 (err @ [''File is empty: '' @ printf_str Filename])
      | None \<Rightarrow>
          ReadMultiFiles_loop fs rest buf
            (err @ [''Couldn'' @ [CHR 0x27] @ ''t open file: '' @ printf_str Filename]))"

text \<open>
  \<^verbatim>\<open>ReadMultiFiles\<close>: the buffer as the C string the parser is handed (the block without
  its last terminator), or the null pointer when no file had bytes.
\<close>

definition ReadMultiFiles :: "filesystem \<Rightarrow> string list \<Rightarrow> string option \<times> string list" where
  "ReadMultiFiles fs names =
     (case ReadMultiFiles_loop fs names [] [] of
        (buf, err) \<Rightarrow> (if buf = [] then None else Some (butlast buf), err))"

section \<open>Scanning the input files\<close>

text \<open>The loop of \<^verbatim>\<open>IsKnownOrIgnoredToken\<close> over the ignore list, leaving at the first match.\<close>

fun ignored_loop :: "GLToken \<Rightarrow> string list \<Rightarrow> bool" where
  "ignored_loop Token [] = False"
| "ignored_loop Token (Ignored # rest) =
     (if Equal (GLToken.Value Token) Ignored then True else ignored_loop Token rest)"

definition warning_not_found :: "GLToken \<Rightarrow> string" where
  "warning_not_found Token =
     TermColorYellow @ ''WARNING'' @ TermColorReset @ '': Token not found in header: '' @
     printf_slice (GLToken.Value Token) @ [CHR 0x0A]"

text \<open>\<^verbatim>\<open>IsKnownOrIgnoredToken\<close>: \<^verbatim>\<open>Found\<close>, and what it printed on \<^verbatim>\<open>stderr\<close>.\<close>

definition IsKnownOrIgnoredToken ::
  "GLArbToken list \<Rightarrow> GLToken \<Rightarrow> GLSettings \<Rightarrow> bool \<times> string list" where
  "IsKnownOrIgnoredToken ArbHash Token Settings =
     (case GetToken ArbHash (GLToken.Hash Token) of
        Some ArbToken \<Rightarrow> (True, [])
      | None \<Rightarrow>
          (let Found = ignored_loop Token (Ignores Settings)
           in (Found, if \<not> Found then [warning_not_found Token] else [])))"

text \<open>
  What \<^verbatim>\<open>ParseFile\<close> reads and writes through its pointer arguments, and \<^verbatim>\<open>stderr\<close>.
\<close>

record scan_state =
  FunctionsHash :: "GLToken list"
  FunctionCount :: nat
  DefinesHash :: "GLToken list"
  DefinesCount :: nat
  Stderr :: "string list"

text \<open>
  The first test of the loop body:
  \<^verbatim>\<open>StartsWith(Token.Value, "gl") && IsUpperCase(Token.Value.Chars[2])\<close>.  The read of
  \<^verbatim>\<open>Chars[2]\<close> is made whenever the first conjunct holds, also for a token of one byte.
\<close>

definition is_function_candidate :: "GLToken \<Rightarrow> fault + bool" where
  "is_function_candidate Token =
     (if StartsWith (GLToken.Value Token) ''gl''
      then (case index_opt (Chars (GLToken.Value Token)) 2 of
              None \<Rightarrow> Inl OutOfBounds
            | Some c \<Rightarrow> Inr (IsUpperCase c))
      else Inr False)"

text \<open>
  \<^verbatim>\<open>if (!Contains(FunctionsHash, Token) && IsKnownOrIgnoredToken(...)) { AddToken(...);
  *FunctionCount += 1; }\<close>
\<close>

definition record_function :: "GLArbToken list \<Rightarrow> GLSettings \<Rightarrow> GLToken \<Rightarrow> scan_state \<Rightarrow> scan_state" where
  "record_function ArbHash Settings Token st =
     (if \<not> Contains (FunctionsHash st) Token
      then (case IsKnownOrIgnoredToken ArbHash Token Settings of
              (Found, printed) \<Rightarrow>
                if Found
                then st\<lparr>FunctionsHash := snd (AddToken (FunctionsHash st) Token),
                        FunctionCount := FunctionCount st + 1,
                        Stderr := Stderr st @ printed\<rparr>
                else st\<lparr>Stderr := Stderr st @ printed\<rparr>)
      else st)"

definition record_define :: "GLArbToken list \<Rightarrow> GLSettings \<Rightarrow> GLToken \<Rightarrow> scan_state \<Rightarrow> scan_state" where
  "record_define ArbHash Settings Token st =
     (if \<not> Contains (DefinesHash st) Token
      then (case IsKnownOrIgnoredToken ArbHash Token Settings of
              (Found, printed) \<Rightarrow>
                if Found
                then st\<lparr>DefinesHash := snd (AddToken (DefinesHash st) Token),
                        DefinesCount := DefinesCount st + 1,
                        Stderr := Stderr st @ printed\<rparr>
                else st\<lparr>Stderr := Stderr st @ printed\<rparr>)
      else st)"

text \<open>The body of the loop of \<^verbatim>\<open>ParseFile\<close> after \<^verbatim>\<open>ParseToken\<close>.\<close>

definition ParseFile_token ::
  "GLArbToken list \<Rightarrow> GLSettings \<Rightarrow> GLToken \<Rightarrow> scan_state \<Rightarrow> fault + scan_state" where
  "ParseFile_token ArbHash Settings Token st =
     (case is_function_candidate Token of
        Inl f \<Rightarrow> Inl f
      | Inr is_function \<Rightarrow>
          (let st1 = (if is_function then record_function ArbHash Settings Token st else st);
               st2 = (if StartsWith (GLToken.Value Token) ''GL_''
                      then record_define ArbHash Settings Token st1 else st1)
           in Inr st2))"

text \<open>\<^verbatim>\<open>while(*Tokenizer.At) { GLToken Token = ParseToken(&Tokenizer); ... }\<close>\<close>

function ParseFile_loop ::
  "GLArbToken list \<Rightarrow> GLSettings \<Rightarrow> string \<Rightarrow> scan_state \<Rightarrow> fault + scan_state" where
  "ParseFile_loop ArbHash Settings At st =
     (if deref At \<noteq> NUL
      then (case ParseFile_token ArbHash Settings (fst (ParseToken At)) st of
              Inl f \<Rightarrow> Inl f
            | Inr st' \<Rightarrow> ParseFile_loop ArbHash Settings (snd (ParseToken At)) st')
      else Inr st)"
  by pat_completeness auto
termination
proof (relation "measure (\<lambda>(ArbHash, Settings, At, st). length At)")
  show "wf (measure (\<lambda>(ArbHash, Settings, At, st). length At))"
    by simp
next
  fix ArbHash :: "GLArbToken list" and Settings :: GLSettings and At :: string
    and st x2 :: scan_state
  assume live: "deref At \<noteq> NUL"
  have ident: "length (skip_identifier xs) \<le> length xs" for xs
    by (induction xs) auto
  have ident_step: "length (skip_identifier (c # cs)) < length (c # cs)"
    if "c \<noteq> NUL" "IsIdentifier c" for c cs
    using that ident [of cs] by simp
  have skip: "length (skip_identifier (skip_to_identifier xs)) < length xs"
    if "deref xs \<noteq> NUL" for xs
    using that
  proof (induction xs)
    case Nil
    then show ?case by (simp add: deref_def)
  next
    case (Cons c cs)
    show ?case
    proof (cases "IsWhitespaceOrNewline c \<or> \<not> IsIdentifier c")
      case True
      have "length (skip_identifier (skip_to_identifier cs)) \<le> length cs"
        by (induction cs) (use ident in \<open>auto intro: le_SucI order_trans\<close>)
      with True Cons.prems show ?thesis
        by (simp add: deref_def)
    next
      case False
      with Cons.prems ident_step [of c cs] show ?thesis
        by (simp add: deref_def)
    qed
  qed
  from skip [OF live]
  show "((ArbHash, Settings, snd (ParseToken At), x2), (ArbHash, Settings, At, st))
        \<in> measure (\<lambda>(ArbHash, Settings, At, st). length At)"
    by (simp add: ParseToken_def Let_def)
qed

declare ParseFile_loop.simps [simp del]

text \<open>
  \<^verbatim>\<open>ParseFile\<close>.  Its return value \<^verbatim>\<open>Success\<close> is not used by the caller; the state
  and the lines on \<^verbatim>\<open>stderr\<close> are.
\<close>

definition ParseFile ::
  "filesystem \<Rightarrow> string \<Rightarrow> GLArbToken list \<Rightarrow> GLSettings \<Rightarrow> scan_state \<Rightarrow> fault + scan_state" where
  "ParseFile fs Filename ArbHash Settings st =
     (case ReadEntireFile fs Filename of
        (Some Data, printed) \<Rightarrow>
          ParseFile_loop ArbHash Settings Data (st\<lparr>Stderr := Stderr st @ printed\<rparr>)
      | (None, printed) \<Rightarrow>
          Inr (st\<lparr>Stderr := Stderr st @ printed @
                 [''Couldn'' @ [CHR 0x27] @ ''t open file '' @ printf_str Filename]\<rparr>))"

section \<open>The registry parser\<close>

text \<open>
  The branch of the parse loop for a token equal to \<^verbatim>\<open>GLAPI\<close>.  \<open>Token0\<close> is that
  token and \<open>At0\<close> the cursor behind it.  A pointer difference \<^verbatim>\<open>q - p\<close> within the
  buffer is the difference of the lengths of the two lists.  \<^verbatim>\<open>AddToken\<close> returns the
  null pointer on a full table, and the next statement writes through it.
\<close>

definition registry_GLAPI ::
  "GLArbToken \<Rightarrow> string \<Rightarrow> GLArbToken list \<Rightarrow> nat \<Rightarrow> fault + (string \<times> GLArbToken list \<times> nat)" where
  "registry_GLAPI Token0 At0 ArbHash ArbTokenCount =
     (let Start = Chars (GLArbToken.Value Token0);
          ReturnTypeStart = At0;
          Token1 = fst (ParseArbToken At0);
          At1 = snd (ParseArbToken At0);
          At2 = (if Equal (GLArbToken.Value Token1) ''const'' then snd (ParseArbToken At1) else At1);
          ReturnTypeLength = length ReturnTypeStart - length At2;
          At3 = snd (ParseArbToken At2);
          Token4 = fst (ParseArbToken At3);
          At4 = snd (ParseArbToken At3);
          Token = Token4\<lparr>GLArbToken.Hash := GetStringHash (GLArbToken.Value Token4)\<rparr>
      in case GetToken ArbHash (GLArbToken.Hash Token) of
           Some Known \<Rightarrow> Inr (At4, ArbHash, ArbTokenCount)
         | None \<Rightarrow>
             (case AddToken_Arb ArbHash Token of
                (None, ArbHash') \<Rightarrow> Inl NullDereference
              | (Some Result, ArbHash') \<Rightarrow>
                  (let At5 = AdvanceToEndOfLine At4;
                       Entry = (ArbHash' ! Result)
                         \<lparr>FunctionName :=
                            \<lparr>Chars = Chars (GLArbToken.Value Token),
                             Length = length (Chars (GLArbToken.Value Token)) - length At4\<rparr>,
                          ReturnType := \<lparr>Chars = ReturnTypeStart, Length = ReturnTypeLength\<rparr>,
                          Parameters := \<lparr>Chars = At4, Length = length At4 - length At5\<rparr>,
                          Line := \<lparr>Chars = Start, Length = length Start - length At5\<rparr>\<rparr>
                   in Inr (At5, ArbHash'[Result := Entry], ArbTokenCount + 1))))"

text \<open>The branch for a token that starts with \<^verbatim>\<open>#define\<close>.\<close>

definition registry_define ::
  "GLArbToken \<Rightarrow> string \<Rightarrow> GLArbToken list \<Rightarrow> nat \<Rightarrow> fault + (string \<times> GLArbToken list \<times> nat)" where
  "registry_define Token0 At0 ArbHash ArbTokenCount =
     (let Start = Chars (GLArbToken.Value Token0);
          Token1 = fst (ParseArbToken At0);
          At1 = snd (ParseArbToken At0);
          Token = Token1\<lparr>GLArbToken.Hash := GetStringHash (GLArbToken.Value Token1)\<rparr>
      in case GetToken ArbHash (GLArbToken.Hash Token) of
           Some Known \<Rightarrow> Inr (At1, ArbHash, ArbTokenCount)
         | None \<Rightarrow>
             (case AddToken_Arb ArbHash Token of
                (None, ArbHash') \<Rightarrow> Inl NullDereference
              | (Some Result, ArbHash') \<Rightarrow>
                  (let At2 = AdvanceToEndOfLine At1;
                       Entry = (ArbHash' ! Result)
                         \<lparr>Line := \<lparr>Chars = Start, Length = length Start - length At2\<rparr>\<rparr>
                   in Inr (At2, ArbHash'[Result := Entry], ArbTokenCount + 1))))"

text \<open>One pass of the parse loop: the cursor, the table and \<^verbatim>\<open>ArbTokenCount\<close> after it.\<close>

definition registry_step ::
  "string \<Rightarrow> GLArbToken list \<Rightarrow> nat \<Rightarrow> fault + (string \<times> GLArbToken list \<times> nat)" where
  "registry_step At ArbHash ArbTokenCount =
     (let Token = fst (ParseArbToken At);
          At0 = snd (ParseArbToken At)
      in if Equal (GLArbToken.Value Token) ''GLAPI''
         then registry_GLAPI Token At0 ArbHash ArbTokenCount
         else if StartsWith (GLArbToken.Value Token) ''#define''
         then registry_define Token At0 ArbHash ArbTokenCount
         else Inr (At0, ArbHash, ArbTokenCount))"

text \<open>The cursor only moves forward, and a pass that starts before the terminator moves it.\<close>

lemma skip_identifier_length: "length (skip_identifier xs) \<le> length xs"
  by (induction xs) auto

lemma skip_to_identifier_length: "length (skip_to_identifier xs) \<le> length xs"
  by (induction xs) auto

lemma AdvanceToEndOfLine_length: "length (AdvanceToEndOfLine xs) \<le> length xs"
  by (induction xs) auto

lemma skip_both_less:
  "deref xs \<noteq> NUL \<Longrightarrow> length (skip_identifier (skip_to_identifier xs)) < length xs"
proof (induction xs)
  case Nil
  then show ?case by (simp add: deref_def)
next
  case (Cons c cs)
  have "length (skip_identifier (skip_to_identifier cs)) \<le> length cs"
    using skip_identifier_length [of "skip_to_identifier cs"] skip_to_identifier_length [of cs]
    by simp
  moreover have "length (skip_identifier cs) \<le> length cs"
    by (rule skip_identifier_length)
  ultimately show ?case
    using Cons.prems by (simp add: deref_def)
qed

lemma ParseArbToken_length: "length (snd (ParseArbToken At)) \<le> length At"
proof -
  have "length (skip_identifier (skip_to_identifier At)) \<le> length At"
    using skip_identifier_length [of "skip_to_identifier At"] skip_to_identifier_length [of At]
    by simp
  then show ?thesis
    by (auto simp add: ParseArbToken_def Let_def)
qed

lemma ParseArbToken_less: "deref At \<noteq> NUL \<Longrightarrow> length (snd (ParseArbToken At)) < length At"
  using skip_both_less [of At] by (auto simp add: ParseArbToken_def Let_def)

lemma registry_step_less:
  assumes "registry_step At ArbHash ArbTokenCount = Inr (At', ArbHash', ArbTokenCount')"
    and "deref At \<noteq> NUL"
  shows "length At' < length At"
proof -
  let ?At0 = "snd (ParseArbToken At)"
  have first: "length ?At0 < length At"
    using assms(2) by (rule ParseArbToken_less)
  have le: "length (snd (ParseArbToken p)) \<le> length p" for p
    by (rule ParseArbToken_length)
  have eol: "length (AdvanceToEndOfLine p) \<le> length p" for p
    by (rule AdvanceToEndOfLine_length)
  have dfn: "length At' \<le> length ?At0"
    if "registry_define (fst (ParseArbToken At)) ?At0 ArbHash ArbTokenCount =
        Inr (At', ArbHash', ArbTokenCount')"
    using that le [of ?At0] eol [of "snd (ParseArbToken ?At0)"]
    by (auto simp add: registry_define_def Let_def split: option.splits prod.splits)
  have glapi: "length At' \<le> length ?At0"
    if "registry_GLAPI (fst (ParseArbToken At)) ?At0 ArbHash ArbTokenCount =
        Inr (At', ArbHash', ArbTokenCount')"
  proof -
    let ?At1 = "snd (ParseArbToken ?At0)"
    let ?At2 = "if Equal (GLArbToken.Value (fst (ParseArbToken ?At0))) ''const''
                then snd (ParseArbToken ?At1) else ?At1"
    let ?At4 = "snd (ParseArbToken (snd (ParseArbToken ?At2)))"
    have "length ?At2 \<le> length ?At0"
      using le [of ?At0] le [of ?At1] by simp
    then have four: "length ?At4 \<le> length ?At0"
      using le [of ?At2] le [of "snd (ParseArbToken ?At2)"] by simp
    from that have "At' = ?At4 \<or> At' = AdvanceToEndOfLine ?At4"
      by (auto simp add: registry_GLAPI_def Let_def split: option.splits prod.splits)
    then show ?thesis
      using four eol [of ?At4] by auto
  qed
  from assms(1) dfn glapi first show ?thesis
    by (auto simp add: registry_step_def Let_def split: if_splits)
qed

text \<open>\<^verbatim>\<open>while(*Tokenizer.At) { ... }\<close> over the concatenated registry buffer.\<close>

function parse_registry ::
  "string \<Rightarrow> GLArbToken list \<Rightarrow> nat \<Rightarrow> fault + (GLArbToken list \<times> nat)" where
  "parse_registry At ArbHash ArbTokenCount =
     (if deref At \<noteq> NUL
      then (case registry_step At ArbHash ArbTokenCount of
              Inl f \<Rightarrow> Inl f
            | Inr (At', ArbHash', ArbTokenCount') \<Rightarrow> parse_registry At' ArbHash' ArbTokenCount')
      else Inr (ArbHash, ArbTokenCount))"
  by pat_completeness auto
termination
  by (relation "measure (\<lambda>(At, ArbHash, ArbTokenCount). length At)")
    (auto dest: registry_step_less)

declare parse_registry.simps [simp del]

section \<open>The header emitter\<close>

text \<open>\<^verbatim>\<open>%llu\<close> and \<^verbatim>\<open>%u\<close>: the decimal digits of an unsigned number.\<close>

fun decimal :: "nat \<Rightarrow> string" where
  "decimal n =
     (if n < 10 then [char_of (48 + n)] else decimal (n div 10) @ [char_of (48 + n mod 10)])"

declare decimal.simps [simp del]

text \<open>\<^verbatim>\<open>toupper\<close> in the C locale, and \<^verbatim>\<open>UpperCase\<close>: the bytes written before the terminator.\<close>

definition toupper :: "char \<Rightarrow> char" where
  "toupper c = (if c \<ge> CHR ''a'' \<and> c \<le> CHR ''z'' then char_of (of_char c - (32 :: nat)) else c)"

definition UpperCase :: "GLString \<Rightarrow> string" where
  "UpperCase Str = map toupper (bytes_of Str)"

text \<open>\<^verbatim>\<open>sprintf\<close> into \<^verbatim>\<open>char Buffer[512]\<close>: the text and its terminator have to fit.\<close>

definition sprintf_512 :: "string \<Rightarrow> fault + string" where
  "sprintf_512 s = (if length s < 512 then Inr s else Inl BufferOverflow)"

definition bind_fault :: "fault + 'a \<Rightarrow> ('a \<Rightarrow> fault + 'b) \<Rightarrow> fault + 'b" where
  "bind_fault m k = (case m of Inl f \<Rightarrow> Inl f | Inr a \<Rightarrow> k a)"

text \<open>\<^verbatim>\<open>const char* ProcPrefix = "GEN_";\<close>\<close>

definition ProcPrefix :: string where
  "ProcPrefix = ''GEN_''"

text \<open>The include guard and the \<^verbatim>\<open>@GENERATED\<close> comment, printed with \<^verbatim>\<open>%llu\<close> of \<^verbatim>\<open>WriteTimestamp\<close>.\<close>

definition Generated_guard :: "u64 \<Rightarrow> string" where
  "Generated_guard ts =
     ''#ifndef INCLUDE_OPENGL_GENERATED_H\<newline>'' @
     ''#define INCLUDE_OPENGL_GENERATED_H\<newline>\<newline>'' @
     ''// NOTE: This file is generated automatically. Do not edit.\<newline>'' @
     ''// @GENERATED: '' @
     decimal (unat ts) @
     ''\<newline>\<newline>''"

text \<open>The version record and the forward declaration of the initialisation function.\<close>

definition Generated_version :: "string \<Rightarrow> string" where
  "Generated_version P =
     ''typedef struct '' @
     P @
     ''OpenGLVersion\<newline>'' @
     ''{\<newline>'' @
     ''  int Major;\<newline>'' @
     ''  int Minor;\<newline>'' @
     ''} '' @
     P @
     ''OpenGLVersion;\<newline>'' @
     ''// Call this function to initialize OpenGL.\<newline>'' @
     ''// Example:\<newline>'' @
     ''//\<newline>'' @
     ''//    '' @
     P @
     ''OpenGLVersion Version;\<newline>'' @
     ''//    '' @
     P @
     ''OpenGLInit(&Version);\<newline>'' @
     ''//    if(Version.Major < 3)\<newline>'' @
     ''//    {\<newline>'' @
     ''//       printf(\"OpenGL 3 or above required.'' @ [CHR 0x5C] @ ''n\");\<newline>'' @
     ''//       return 0;\<newline>'' @
     ''//    }\<newline>'' @
     ''//\<newline>'' @
     ''static void '' @
     P @
     ''OpenGLInit('' @
     P @
     ''OpenGLVersion* Version);\<newline>\<newline>\<newline>''"

text \<open>The fixed block of calling-convention macros and baseline type aliases.\<close>

definition Generated_baseline :: "string" where
  "Generated_baseline =
     ''#ifndef APIENTRY\<newline>'' @
     ''#define APIENTRY\<newline>'' @
     ''#endif\<newline>'' @
     ''#ifndef APIENTRYP\<newline>'' @
     ''#define APIENTRYP APIENTRY *\<newline>'' @
     ''#endif\<newline>'' @
     ''#ifndef GLAPI\<newline>'' @
     ''#define GLAPI extern\<newline>'' @
     ''#endif\<newline>\<newline>'' @
     ''typedef void GLvoid;\<newline>'' @
     ''typedef unsigned int GLenum;\<newline>'' @
     ''typedef float GLfloat;\<newline>'' @
     ''typedef int GLint;\<newline>'' @
     ''typedef int GLsizei;\<newline>'' @
     ''typedef unsigned int GLbitfield;\<newline>'' @
     ''typedef double GLdouble;\<newline>'' @
     ''typedef unsigned int GLuint;\<newline>'' @
     ''typedef unsigned char GLboolean;\<newline>'' @
     ''typedef unsigned char GLubyte;\<newline>'' @
     ''typedef char GLchar;\<newline>'' @
     ''typedef short GLshort;\<newline>'' @
     ''typedef signed char GLbyte;\<newline>'' @
     ''typedef unsigned short GLushort;\<newline>'' @
     ''typedef ptrdiff_t GLsizeiptr;\<newline>'' @
     ''typedef ptrdiff_t GLintptr;\<newline>'' @
     ''typedef float GLclampf;\<newline>'' @
     ''typedef double GLclampd;\<newline>'' @
     ''typedef unsigned short GLhalf;\<newline>\<newline>''"

text \<open>\<^verbatim>\<open>Spacer\<close>\<close>

definition Spacer :: "string" where
  "Spacer =
     ''\<newline>\<newline>''"

text \<open>The debug-callback type alias.\<close>

definition Generated_debugproc :: "string" where
  "Generated_debugproc =
     ''typedef void (APIENTRY *GLDEBUGPROC)(GLenum source,GLenum type,GLuint id,GLenum severity,GLsizei length,const GLchar *message,const void *userParam);\<newline>''"

text \<open>The loader code of the three platform families; every \<^verbatim>\<open>%s\<close> is the prefix.\<close>

definition Generated_loader :: "string \<Rightarrow> string" where
  "Generated_loader P =
     ''\<newline>\<newline>'' @
     ''typedef void (*'' @
     P @
     ''OpenGLProc)(void);\<newline>\<newline>'' @
     ''#ifdef _WIN32\<newline>'' @
     ''static HMODULE '' @
     P @
     ''OpenGLHandle;\<newline>'' @
     ''static void '' @
     P @
     ''LoadOpenGL()\<newline>'' @
     ''{\<newline>'' @
     ''  '' @
     P @
     ''OpenGLHandle = LoadLibraryA(\"opengl32.dll\");\<newline>'' @
     ''}\<newline>'' @
     ''static void '' @
     P @
     ''UnloadOpenGL()\<newline>'' @
     ''{\<newline>'' @
     ''  FreeLibrary('' @
     P @
     ''OpenGLHandle);\<newline>'' @
     ''}\<newline>'' @
     ''static '' @
     P @
     ''OpenGLProc '' @
     P @
     ''OpenGLGetProc(const char *proc)\<newline>'' @
     ''{\<newline>'' @
     ''  '' @
     P @
     ''OpenGLProc Result = ('' @
     P @
     ''OpenGLProc)wglGetProcAddress(proc);\<newline>'' @
     ''  if (!Result)\<newline>'' @
     ''    Result = ('' @
     P @
     ''OpenGLProc)GetProcAddress('' @
     P @
     ''OpenGLHandle, proc);\<newline>'' @
     ''  return Result;\<newline>'' @
     ''}\<newline>'' @
     ''#elif defined(__APPLE__) || defined(__APPLE_CC__)\<newline>'' @
     ''#include <Carbon/Carbon.h>\<newline>'' @
     ''\<newline>'' @
     ''static CFBundleRef GEN_Bundle;\<newline>'' @
     ''static CFURLRef GEN_BundleURL;\<newline>'' @
     ''\<newline>'' @
     ''static void '' @
     P @
     ''LoadOpenGL()\<newline>'' @
     ''{\<newline>'' @
     ''  GEN_BundleURL = CFURLCreateWithFileSystemPath(kCFAllocatorDefault,\<newline>'' @
     ''    CFSTR(\"/System/Library/Frameworks/OpenGL.framework\"),\<newline>'' @
     ''    kCFURLPOSIXPathStyle, 1);\<newline>'' @
     ''  GEN_Bundle = CFBundleCreate(kCFAllocatorDefault, GEN_BundleURL);\<newline>'' @
     ''}\<newline>'' @
     ''static void '' @
     P @
     ''UnloadOpenGL()\<newline>'' @
     ''{\<newline>'' @
     ''  CFRelease(GEN_Bundle);\<newline>'' @
     ''  CFRelease(GEN_BundleURL);\<newline>'' @
     ''}\<newline>'' @
     ''static '' @
     P @
     ''OpenGLProc '' @
     P @
     ''OpenGLGetProc(const char *proc)\<newline>'' @
     ''{\<newline>'' @
     ''  CFStringRef ProcName = CFStringCreateWithCString(kCFAllocatorDefault, proc,\<newline>'' @
     ''    kCFStringEncodingASCII);\<newline>'' @
     ''  '' @
     P @
     ''OpenGLProc Result = ('' @
     P @
     ''OpenGLProc) CFBundleGetFunctionPointerForName(GEN_Bundle, ProcName);\<newline>'' @
     ''  CFRelease(ProcName);\<newline>'' @
     ''  return Result;\<newline>'' @
     ''}\<newline>'' @
     ''#else\<newline>'' @
     ''#include <dlfcn.h>\<newline>'' @
     ''\<newline>'' @
     ''static void *'' @
     P @
     ''OpenGLHandle;\<newline>'' @
     ''typedef void (*__GLXextproc)(void);\<newline>'' @
     ''typedef __GLXextproc (* PFNGLXGETPROCADDRESSPROC) (const GLubyte *procName);\<newline>'' @
     ''static PFNGLXGETPROCADDRESSPROC glx_get_proc_address;\<newline>'' @
     ''static void '' @
     P @
     ''LoadOpenGL()\<newline>'' @
     ''{\<newline>'' @
     ''  '' @
     P @
     ''OpenGLHandle = dlopen(\"libGL.so.1\", RTLD_LAZY | RTLD_GLOBAL);\<newline>'' @
     ''  glx_get_proc_address = (PFNGLXGETPROCADDRESSPROC) dlsym('' @
     P @
     ''OpenGLHandle, \"glXGetProcAddressARB\");\<newline>'' @
     ''}\<newline>'' @
     ''static void '' @
     P @
     ''UnloadOpenGL()\<newline>'' @
     ''{\<newline>'' @
     ''  dlclose('' @
     P @
     ''OpenGLHandle);\<newline>'' @
     ''}\<newline>'' @
     ''static '' @
     P @
     ''OpenGLProc '' @
     P @
     ''OpenGLGetProc(const char *proc)\<newline>'' @
     ''{\<newline>'' @
     ''  '' @
     P @
     ''OpenGLProc Result = ('' @
     P @
     ''OpenGLProc) glx_get_proc_address((const GLubyte *) proc);\<newline>'' @
     ''  if (!Result)\<newline>'' @
     ''    Result = ('' @
     P @
     ''OpenGLProc) dlsym('' @
     P @
     ''OpenGLHandle, proc);\<newline>'' @
     ''  return Result;\<newline>'' @
     ''}\<newline>'' @
     ''#endif\<newline>\<newline>''"

text \<open>The head of the initialisation function.\<close>

definition Generated_init_head :: "string \<Rightarrow> string" where
  "Generated_init_head P =
     ''\<newline>\<newline>void '' @
     P @
     ''OpenGLInit('' @
     P @
     ''OpenGLVersion* Version)\<newline>'' @
     ''{\<newline>'' @
     ''  '' @
     P @
     ''LoadOpenGL();\<newline>\<newline>''"

text \<open>The end of the initialisation function and the closing line of the include guard.\<close>

definition Generated_init_tail :: "string \<Rightarrow> string" where
  "Generated_init_tail P =
     ''\<newline>  '' @
     P @
     ''UnloadOpenGL();\<newline>'' @
     ''\<newline>'' @
     ''  Version->Major = 0;\<newline>'' @
     ''  Version->Minor = 0;\<newline>'' @
     ''  if (glGetIntegerv)\<newline>'' @
     ''  {\<newline>'' @
     ''    glGetIntegerv(GL_MAJOR_VERSION, &Version->Major);\<newline>'' @
     ''    glGetIntegerv(GL_MINOR_VERSION, &Version->Minor);\<newline>'' @
     ''  }\<newline>'' @
     ''}\<newline>\<newline>'' @
     ''#endif // INCLUDE_OPENGL_GENERATED_H\<newline>''"

text \<open>
  The \<^verbatim>\<open>for (Index = 0; Index < Count; ++Index)\<close> loop the emitter runs five times over
  the first \<^verbatim>\<open>Count\<close> slots of a sorted result set; \<open>body\<close> is what one pass writes for
  the slot \<^verbatim>\<open>TokenHash + Index\<close>.  A slot beyond the array is outside the allocation.
\<close>

function emit_loop ::
  "(GLToken \<Rightarrow> fault + string) \<Rightarrow> GLToken list \<Rightarrow> nat \<Rightarrow> nat \<Rightarrow> fault + string" where
  "emit_loop body TokenHash Count Index =
     (if Index < Count
      then (if Index < length TokenHash
            then bind_fault (body (TokenHash ! Index)) (\<lambda>written.
                 bind_fault (emit_loop body TokenHash Count (Index + 1)) (\<lambda>rest.
                 Inr (written @ rest)))
            else Inl OutOfBounds)
      else Inr [])"
  by pat_completeness auto
termination
  by (relation "measure (\<lambda>(body, TokenHash, Count, Index). Count - Index)") auto

declare emit_loop.simps [simp del]

text \<open>
  The macro loop: \<^verbatim>\<open>assert(Token->Hash)\<close>, then the registry line of the hash, written
  with \<^verbatim>\<open>fwrite\<close> of \<^verbatim>\<open>Line.Length + 1\<close> bytes (the line and the byte behind it); nothing
  when the registry has no slot for the hash.
\<close>

definition define_body :: "GLArbToken list \<Rightarrow> GLToken \<Rightarrow> fault + string" where
  "define_body ArbHash Token =
     (if GLToken.Hash Token = 0 then Inl AssertionFailed
      else (case GetToken ArbHash (GLToken.Hash Token) of
              Some i \<Rightarrow>
                Inr (bytes_of \<lparr>Chars = Chars (Line (ArbHash ! i)),
                               Length = Length (Line (ArbHash ! i)) + 1\<rparr>)
            | None \<Rightarrow> Inr []))"

text \<open>The function-pointer type alias of a function; \<^verbatim>\<open>Name\<close> is a \<^verbatim>\<open>char[512]\<close> too.\<close>

definition typedef_body :: "GLArbToken list \<Rightarrow> GLToken \<Rightarrow> fault + string" where
  "typedef_body ArbHash Token =
     (case GetToken ArbHash (GLToken.Hash Token) of
        Some i \<Rightarrow>
          (let ArbToken = ArbHash ! i
           in if Length (FunctionName ArbToken) < 512
              then sprintf_512
                     (''typedef '' @ printf_slice (ReturnType ArbToken) @ '' (APIENTRYP PFN'' @
                      printf_str (UpperCase (FunctionName ArbToken)) @ ''PROC) '' @
                      printf_slice (Parameters ArbToken) @ [CHR 0x0A])
              else Inl BufferOverflow)
      | None \<Rightarrow> Inr [])"

text \<open>The macro that redefines a function name to its prefixed global.\<close>

definition redefine_body :: "GLArbToken list \<Rightarrow> GLToken \<Rightarrow> fault + string" where
  "redefine_body ArbHash Token =
     (case GetToken ArbHash (GLToken.Hash Token) of
        Some i \<Rightarrow>
          (let ArbToken = ArbHash ! i
           in sprintf_512
                (''#define '' @ printf_slice (FunctionName ArbToken) @ '' '' @ ProcPrefix @
                 printf_slice (FunctionName ArbToken) @ [CHR 0x0A]))
      | None \<Rightarrow> Inr [])"

text \<open>The declaration of the global function pointer.\<close>

definition global_body :: "GLArbToken list \<Rightarrow> GLToken \<Rightarrow> fault + string" where
  "global_body ArbHash Token =
     (case GetToken ArbHash (GLToken.Hash Token) of
        Some i \<Rightarrow>
          (let ArbToken = ArbHash ! i
           in if Length (FunctionName ArbToken) < 512
              then sprintf_512
                     (''PFN'' @ printf_str (UpperCase (FunctionName ArbToken)) @ ''PROC '' @
                      ProcPrefix @ printf_slice (FunctionName ArbToken) @ '';'' @ [CHR 0x0A])
              else Inl BufferOverflow)
      | None \<Rightarrow> Inr [])"

text \<open>The line of the initialisation function that resolves one function pointer.\<close>

definition load_body :: "string \<Rightarrow> GLArbToken list \<Rightarrow> GLToken \<Rightarrow> fault + string" where
  "load_body P ArbHash Token =
     (case GetToken ArbHash (GLToken.Hash Token) of
        Some i \<Rightarrow>
          (let ArbToken = ArbHash ! i
           in if Length (FunctionName ArbToken) < 512
              then sprintf_512
                     (''  '' @ ProcPrefix @ printf_slice (FunctionName ArbToken) @
                      '' = (PFN'' @ printf_str (UpperCase (FunctionName ArbToken)) @ ''PROC)'' @
                      P @ ''OpenGLGetProc(\"'' @ printf_slice (FunctionName ArbToken) @
                      ''\");'' @ [CHR 0x0A])
              else Inl BufferOverflow)
      | None \<Rightarrow> Inr [])"

text \<open>What the branch \<^verbatim>\<open>if (Settings->Boilerplate)\<close> behind the type aliases writes.\<close>

definition emit_boilerplate ::
  "string \<Rightarrow> GLArbToken list \<Rightarrow> GLToken list \<Rightarrow> nat \<Rightarrow> fault + string" where
  "emit_boilerplate P ArbHash Functions NFunctions =
     bind_fault (emit_loop (redefine_body ArbHash) Functions NFunctions 0) (\<lambda>redefines.
     bind_fault (emit_loop (global_body ArbHash) Functions NFunctions 0) (\<lambda>globals.
     bind_fault (emit_loop (load_body P ArbHash) Functions NFunctions 0) (\<lambda>loads.
     Inr (Spacer @ redefines @ Spacer @ globals @ Generated_loader P @
          Generated_init_head P @ loads @ Generated_init_tail P))))"

text \<open>
  Everything \<^verbatim>\<open>GenerateOpenGLHeader\<close> writes to \<^verbatim>\<open>Output\<close>, from the sorted result sets.
\<close>

definition emit_header ::
  "GLSettings \<Rightarrow> GLArbToken list \<Rightarrow> GLToken list \<Rightarrow> nat \<Rightarrow> GLToken list \<Rightarrow> nat \<Rightarrow> fault + string" where
  "emit_header Settings ArbHash Functions NFunctions Defines NDefines =
     (let P = (case Prefix Settings of None \<Rightarrow> [] | Some p \<Rightarrow> printf_str p)
      in bind_fault (emit_loop (define_body ArbHash) Defines NDefines 0) (\<lambda>defines.
         bind_fault (emit_loop (typedef_body ArbHash) Functions NFunctions 0) (\<lambda>typedefs.
         bind_fault (if Boilerplate Settings
                     then emit_boilerplate P ArbHash Functions NFunctions
                     else Inr []) (\<lambda>boilerplate.
         Inr (Generated_guard (WriteTimestamp Settings) @
              (if Boilerplate Settings then Generated_version P else []) @
              Generated_baseline @ defines @ Spacer @ Generated_debugproc @ typedefs @
              boilerplate)))))"

section \<open>Generation\<close>

text \<open>The \<^verbatim>\<open>for\<close> loop of \<^verbatim>\<open>GenerateOpenGLHeader\<close> over the input files.\<close>

fun ParseFiles ::
  "filesystem \<Rightarrow> string list \<Rightarrow> GLArbToken list \<Rightarrow> GLSettings \<Rightarrow> scan_state \<Rightarrow> fault + scan_state" where
  "ParseFiles fs [] ArbHash Settings st = Inr st"
| "ParseFiles fs (Filename # rest) ArbHash Settings st =
     bind_fault (ParseFile fs Filename ArbHash Settings st) (ParseFiles fs rest ArbHash Settings)"

text \<open>
  What a run depends on besides its settings: the files it can read, whether a file can
  be opened for writing, the last-write time of a file (0 when it does not exist), the
  library's \<^verbatim>\<open>qsort\<close>, and the content of the uninitialised \<^verbatim>\<open>Token.Value\<close> in
  \<^verbatim>\<open>AddCustomToken\<close> for each seeded name.
\<close>

record world =
  files :: filesystem
  writable :: "string \<Rightarrow> bool"
  last_write :: "string \<Rightarrow> u64"
  qsort :: "(GLToken \<Rightarrow> GLToken \<Rightarrow> int) \<Rightarrow> GLToken list \<Rightarrow> GLToken list"
  uninit :: "string \<Rightarrow> GLString"

text \<open>
  The result sets as they are before the first input file is scanned: the two macro seeds
  and the function seed, with \<^verbatim>\<open>DefinesCount = 2\<close> and \<^verbatim>\<open>FunctionCount = 1\<close>.
\<close>

definition seeded_state :: "(string \<Rightarrow> GLString) \<Rightarrow> string list \<Rightarrow> scan_state" where
  "seeded_state garbage printed =
     \<lparr>FunctionsHash =
        AddCustomToken calloc_GLToken ''glGetIntegerv'' (garbage ''glGetIntegerv''),
      FunctionCount = 1,
      DefinesHash =
        AddCustomToken
          (AddCustomToken calloc_GLToken ''GL_MAJOR_VERSION'' (garbage ''GL_MAJOR_VERSION''))
          ''GL_MINOR_VERSION'' (garbage ''GL_MINOR_VERSION''),
      DefinesCount = 2,
      Stderr = printed\<rparr>"

text \<open>
  What a run of \<^verbatim>\<open>GenerateOpenGLHeader\<close> leaves: its return value, the bytes of the output
  file (\<open>None\<close> when it could not be opened), and the lines on \<^verbatim>\<open>stderr\<close> and \<^verbatim>\<open>stdout\<close>.
\<close>

record run_result =
  Success :: int
  Written :: "string option"
  Errors :: "string list"
  Printed :: "string list"

definition completed_message :: "nat \<Rightarrow> nat \<Rightarrow> nat \<Rightarrow> string" where
  "completed_message NFunctions NDefines NArbTokens =
     TermColorGreen @ ''Completed!'' @ TermColorReset @ '' '' @
     TermColorGreen @ decimal NFunctions @ TermColorReset @ '' functions - '' @
     TermColorGreen @ decimal NDefines @ TermColorReset @ '' defines - '' @
     TermColorGreen @ decimal NArbTokens @ TermColorReset @ '' ARB tokens'' @ [CHR 0x0A]"

text \<open>
  The branch \<^verbatim>\<open>else if (Output && ArbData)\<close>: parse the registry, seed, scan, sort and
  emit.  \<open>Data\<close> is the registry buffer and \<open>printed\<close> what is on \<^verbatim>\<open>stderr\<close> so far.
  The branch is entered after \<^verbatim>\<open>fopen(Settings->Output, "w")\<close> has succeeded: the output
  file exists and is empty while \<^verbatim>\<open>ParseFile\<close> reads the input files, also when it is
  one of them.
\<close>

definition generate :: "world \<Rightarrow> GLSettings \<Rightarrow> string \<Rightarrow> string list \<Rightarrow> fault + run_result" where
  "generate w Settings Data printed =
     bind_fault (parse_registry Data calloc_GLArbToken 0) (\<lambda>(ArbHash, ArbTokenCount).
     bind_fault (ParseFiles ((files w)(Output Settings \<mapsto> [])) (Inputs Settings) ArbHash
                   Settings (seeded_state (uninit w) printed)) (\<lambda>st.
     bind_fault (emit_header Settings ArbHash
                   (qsort w TokenComparer (FunctionsHash st)) (FunctionCount st)
                   (qsort w TokenComparer (DefinesHash st)) (DefinesCount st)) (\<lambda>out.
     Inr \<lparr>Success = 0, Written = Some out, Errors = Stderr st,
          Printed = (if \<not> Silent Settings
                     then [completed_message (FunctionCount st) (DefinesCount st) ArbTokenCount]
                     else [])\<rparr>)))"

text \<open>
  \<^verbatim>\<open>GenerateOpenGLHeader\<close>.  The registry files are read first, from the files as they
  are; then the output file is opened with \<^verbatim>\<open>fopen(..., "w")\<close>, which leaves it empty
  until something is written.
\<close>

definition GenerateOpenGLHeader :: "world \<Rightarrow> GLSettings \<Rightarrow> fault + run_result" where
  "GenerateOpenGLHeader w Settings =
     (case ReadMultiFiles (files w) (Headers Settings) of
        (ArbData, printed) \<Rightarrow>
          (let Opened = (if writable w (Output Settings) then Some [] else None)
           in if Inputs Settings = []
              then Inr \<lparr>Success = - 1, Written = Opened,
                        Errors = printed @ [''Invalid input count''], Printed = []\<rparr>
              else (case (Opened, ArbData) of
                      (Some Empty, Some Data) \<Rightarrow> generate w Settings Data printed
                    | other \<Rightarrow>
                        Inr \<lparr>Success = - 1, Written = Opened, Errors = printed, Printed = []\<rparr>)))"

text \<open>
  \<^verbatim>\<open>main\<close> from the point where \<^verbatim>\<open>ParseCommandLine\<close> has succeeded: the last-write
  time of the output file is stored in the settings, and the header is generated when
  forced or when an input file is newer.  The result is \<^verbatim>\<open>main\<close>'s return value and,
  when generation ran, what it left.
\<close>

definition main :: "world \<Rightarrow> GLSettings \<Rightarrow> fault + int \<times> run_result option" where
  "main w Parsed =
     (let Settings = Parsed\<lparr>WriteTimestamp := last_write w (Output Parsed)\<rparr>;
          MaxTimestamp = foldl max 0 (map (last_write w) (Inputs Settings))
      in if ForceGenerate Settings \<or> MaxTimestamp > WriteTimestamp Settings
         then bind_fault (GenerateOpenGLHeader w Settings) (\<lambda>r. Inr (Success r, Some r))
         else Inr (0, None))"

section \<open>A worked run\<close>

text \<open>
  A registry of one macro and one function, neither \<^verbatim>\<open>GL_MINOR_VERSION\<close> nor
  \<^verbatim>\<open>glGetIntegerv\<close>, and one source file that calls the function.
\<close>

definition example_registry :: string where
  "example_registry =
     ''#define GL_MAJOR_VERSION 0x821B\<newline>'' @
     ''GLAPI void APIENTRY glClear (GLbitfield mask);\<newline>''"

definition example_source :: string where
  "example_source = ''glClear(1);\<newline>''"

definition example_files :: filesystem where
  "example_files = map_of [(''gl.h'', example_registry), (''main.c'', example_source)]"

definition example_world :: "u64 \<Rightarrow> world" where
  "example_world stamp =
     \<lparr>files = example_files, writable = (\<lambda>name. True),
      last_write = (\<lambda>name. if name = ''gl.generated.h'' then stamp else 0),
      qsort = sort_by, uninit = (\<lambda>name. GLString_zero)\<rparr>"

definition example_settings :: "bool \<Rightarrow> u64 \<Rightarrow> GLSettings" where
  "example_settings boilerplate ts =
     \<lparr>Headers = [''gl.h''], Output = ''gl.generated.h'', Prefix = None, Inputs = [''main.c''],
      Ignores = [], WriteTimestamp = ts, Boilerplate = boilerplate, Silent = False,
      ForceGenerate = True\<rparr>"

text \<open>The registry table, the scanned result sets and the output of that run.\<close>

definition example_after1 :: "GLArbToken list" where
  "example_after1 =
     calloc_GLArbToken
       [123 := \<lparr>GLArbToken.Value = \<lparr>Chars = drop 8 example_registry, Length = 16\<rparr>,
                Line = \<lparr>Chars = example_registry, Length = 31\<rparr>,
                ReturnType = GLString_zero, FunctionName = GLString_zero,
                Parameters = GLString_zero, GLArbToken.Hash = 0x550f607b\<rparr>]"

definition example_ArbHash :: "GLArbToken list" where
  "example_ArbHash =
     calloc_GLArbToken
       [123 := \<lparr>GLArbToken.Value = \<lparr>Chars = drop 8 example_registry, Length = 16\<rparr>,
                Line = \<lparr>Chars = example_registry, Length = 31\<rparr>,
                ReturnType = GLString_zero, FunctionName = GLString_zero,
                Parameters = GLString_zero, GLArbToken.Hash = 0x550f607b\<rparr>,
        2959 := \<lparr>GLArbToken.Value = \<lparr>Chars = drop 52 example_registry, Length = 7\<rparr>,
                 Line = \<lparr>Chars = drop 32 example_registry, Length = 46\<rparr>,
                 ReturnType = \<lparr>Chars = drop 37 example_registry, Length = 5\<rparr>,
                 FunctionName = \<lparr>Chars = drop 52 example_registry, Length = 7\<rparr>,
                 Parameters = \<lparr>Chars = drop 59 example_registry, Length = 19\<rparr>,
                 GLArbToken.Hash = 0xb5c6eb8f\<rparr>]"

definition seed_token :: "GLString \<Rightarrow> u32 \<Rightarrow> GLToken" where
  "seed_token garbage h = \<lparr>GLToken.Value = garbage, GLToken.Hash = h\<rparr>"

definition example_scanned :: "(string \<Rightarrow> GLString) \<Rightarrow> scan_state" where
  "example_scanned garbage =
     \<lparr>FunctionsHash =
        calloc_GLToken[4496 := seed_token (garbage ''glGetIntegerv'') 0xfe4ab190,
                       2959 := \<lparr>GLToken.Value = \<lparr>Chars = example_source, Length = 7\<rparr>,
                                GLToken.Hash = 0xb5c6eb8f\<rparr>],
      FunctionCount = 2,
      DefinesHash =
        calloc_GLToken[123 := seed_token (garbage ''GL_MAJOR_VERSION'') 0x550f607b,
                       743 := seed_token (garbage ''GL_MINOR_VERSION'') 0xfb08e2e7],
      DefinesCount = 2,
      Stderr = []\<rparr>"

definition example_output :: "bool \<Rightarrow> u64 \<Rightarrow> string" where
  "example_output boilerplate ts =
     Generated_guard ts @
     (if boilerplate then Generated_version [] else []) @
     Generated_baseline @
     ''#define GL_MAJOR_VERSION 0x821B\<newline>'' @
     Spacer @
     Generated_debugproc @
     ''typedef  void (APIENTRYP PFNGLCLEARPROC)  (GLbitfield mask);\<newline>'' @
     (if boilerplate
      then Spacer @
           ''#define glClear GEN_glClear\<newline>'' @
           Spacer @
           ''PFNGLCLEARPROC GEN_glClear;\<newline>'' @
           Generated_loader [] @
           Generated_init_head [] @
           ''  GEN_glClear = (PFNGLCLEARPROC)OpenGLGetProc(\"glClear\");\<newline>'' @
           Generated_init_tail []
      else [])"

text \<open>
  Another world for the same run: one more file, which no setting names, and other bytes
  in the uninitialised \<^verbatim>\<open>Token.Value\<close> of the seeds.
\<close>

definition example_other_world :: "u64 \<Rightarrow> world" where
  "example_other_world stamp =
     (example_world stamp)
       \<lparr>files := example_files(''notes.txt'' \<mapsto> ''to do''),
        uninit := (\<lambda>name. \<lparr>Chars = name, Length = 2\<rparr>)\<rparr>"

section \<open>A second run: the registry supplies a closing line\<close>

text \<open>
  A registry of two lines.  Its first token \<^verbatim>\<open>#\<close> is shorter than \<^verbatim>\<open>#define\<close> and passes
  \<^verbatim>\<open>StartsWith\<close>, so the next token \<^verbatim>\<open>#endif\<close> is stored as a macro whose line runs from
  the \<^verbatim>\<open>#\<close> to the end of the second line.  The one token of the source file has the hash
  of \<^verbatim>\<open>#endif\<close>.
\<close>

definition endif_registry :: string where
  "endif_registry = ''#\<newline>#endif // INCLUDE_OPENGL_GENERATED_H\<newline>''"

definition endif_source :: string where
  "endif_source = ''GL_ANCMPQC''"

definition endif_files :: filesystem where
  "endif_files = map_of [(''gl.h'', endif_registry), (''main.c'', endif_source)]"

definition endif_world :: world where
  "endif_world =
     \<lparr>files = endif_files, writable = (\<lambda>name. True), last_write = (\<lambda>name. 0),
      qsort = sort_by, uninit = (\<lambda>name. GLString_zero)\<rparr>"

text \<open>The registry table, the scanned result sets and the output of that run.\<close>

definition endif_ArbHash :: "GLArbToken list" where
  "endif_ArbHash =
     calloc_GLArbToken
       [5330 := \<lparr>GLArbToken.Value = \<lparr>Chars = drop 2 endif_registry, Length = 6\<rparr>,
                 Line = \<lparr>Chars = endif_registry, Length = 38\<rparr>,
                 ReturnType = GLString_zero, FunctionName = GLString_zero,
                 Parameters = GLString_zero, GLArbToken.Hash = 0x49b1d4d2\<rparr>]"

definition endif_scanned :: "(string \<Rightarrow> GLString) \<Rightarrow> scan_state" where
  "endif_scanned garbage =
     \<lparr>FunctionsHash =
        calloc_GLToken[4496 := seed_token (garbage ''glGetIntegerv'') 0xfe4ab190],
      FunctionCount = 1,
      DefinesHash =
        calloc_GLToken[123 := seed_token (garbage ''GL_MAJOR_VERSION'') 0x550f607b,
                       743 := seed_token (garbage ''GL_MINOR_VERSION'') 0xfb08e2e7,
                       5330 := \<lparr>GLToken.Value = \<lparr>Chars = endif_source, Length = 10\<rparr>,
                                GLToken.Hash = 0x49b1d4d2\<rparr>],
      DefinesCount = 3,
      Stderr = []\<rparr>"

definition endif_output :: "u64 \<Rightarrow> string" where
  "endif_output ts =
     Generated_guard ts @
     Generated_baseline @
     ''#\<newline>#endif // INCLUDE_OPENGL_GENERATED_H\<newline>'' @
     Spacer @
     Generated_debugproc"

section \<open>A result set without room\<close>




section \<open>Result sets with the same hashes\<close>

text \<open>
  Proof device: two scan states whose result sets are full-size tables storing the same
  hashes slot by slot, with the same counts and the same lines on \<^verbatim>\<open>stderr\<close>; the
  \<^verbatim>\<open>Value\<close> fields may differ.
\<close>

definition same_sets :: "scan_state \<Rightarrow> scan_state \<Rightarrow> bool" where
  "same_sets st' st =
     (length (FunctionsHash st) = TOKEN_HASH_SIZE \<and>
      length (DefinesHash st) = TOKEN_HASH_SIZE \<and>
      map GLToken.Hash (FunctionsHash st') = map GLToken.Hash (FunctionsHash st) \<and>
      FunctionCount st' = FunctionCount st \<and>
      map GLToken.Hash (DefinesHash st') = map GLToken.Hash (DefinesHash st) \<and>
      DefinesCount st' = DefinesCount st \<and>
      Stderr st' = Stderr st)"

section \<open>Result sets that keep their seeds\<close>

text \<open>
  Proof devices: the number of slots of a result set with a stored hash, and the invariant
  of the scan: both result sets are full-size tables, neither holds more stored hashes
  than its count says, and the hashes of \<open>Fs\<close> and \<open>Ds\<close> are stored in the function set and
  the macro set.
\<close>

definition populated :: "GLToken list \<Rightarrow> nat" where
  "populated TokenHash = length (filter (\<lambda>t. GLToken.Hash t \<noteq> 0) TokenHash)"

definition keeps_seeds :: "u32 set \<Rightarrow> u32 set \<Rightarrow> scan_state \<Rightarrow> bool" where
  "keeps_seeds Fs Ds st =
     (length (FunctionsHash st) = TOKEN_HASH_SIZE \<and>
      length (DefinesHash st) = TOKEN_HASH_SIZE \<and>
      populated (FunctionsHash st) \<le> FunctionCount st \<and>
      populated (DefinesHash st) \<le> DefinesCount st \<and>
      Fs \<subseteq> GLToken.Hash ` set (FunctionsHash st) \<and>
      Ds \<subseteq> GLToken.Hash ` set (DefinesHash st))"

section \<open>Hash of a string: proofs\<close>

lemma GetStringHash_loop_foldl:
  "Idx \<le> Length String \<Longrightarrow>
   GetStringHash_loop String Idx Result =
     foldl spec_hash_step Result (map (char_at (Chars String)) [Idx..<Length String])"
proof (induction String Idx Result rule: GetStringHash_loop.induct)
  case (1 String Idx Result)
  show ?case
  proof (cases "Idx < Length String")
    case True
    then have "[Idx..<Length String] = Idx # [Idx + 1..<Length String]"
      by (simp add: upt_conv_Cons)
    moreover have "(Result * 0x01000193) XOR of_nat (of_char (char_at (Chars String) Idx)) =
        spec_hash_step Result (char_at (Chars String) Idx)"
      by (simp only: spec_hash_step_def)
    ultimately show ?thesis
      using True "1.IH" by (subst GetStringHash_loop.simps) simp
  next
    case False
    then show ?thesis
      by (subst GetStringHash_loop.simps) simp
  qed
qed

text \<open>
  C4. For every string slice, the hash the program computes is the fold from seed 1 that
  per byte first multiplies the 32-bit accumulator by \<^verbatim>\<open>0x01000193\<close> (wrapping modulo
  \<open>2^32\<close>) and then XORs the byte in.
\<close>

theorem GetStringHash_is_spec_hash:
  "GetStringHash String = spec_hash (bytes_of String)"
  unfolding GetStringHash_def spec_hash_def bytes_of_def
  by (rule GetStringHash_loop_foldl) simp

section \<open>The probe loops\<close>

lemma mask_index_unat:
  "unat ((w :: u32) AND (of_nat TOKEN_HASH_SIZE - 1)) = unat w mod TOKEN_HASH_SIZE"
proof -
  have "(of_nat TOKEN_HASH_SIZE - 1 :: u32) = mask 13"
    by (simp add: TOKEN_HASH_SIZE_def mask_eq_exp_minus_1)
  then have "unat (w AND (of_nat TOKEN_HASH_SIZE - 1)) = unat (take_bit 13 w)"
    by (simp only: take_bit_eq_mask)
  also have "\<dots> = take_bit 13 (unat w)"
    by (rule unsigned_take_bit_eq)
  also have "\<dots> = unat w mod 2 ^ 13"
    by (rule take_bit_eq_mod)
  finally show ?thesis
    by (simp add: TOKEN_HASH_SIZE_def)
qed

lemma mask_index_less: "unat ((w :: u32) AND (of_nat TOKEN_HASH_SIZE - 1)) < TOKEN_HASH_SIZE"
  unfolding mask_index_unat by (simp add: TOKEN_HASH_SIZE_def)

lemma next_index_unat:
  "unat (((Index :: u32) + 1) AND (of_nat TOKEN_HASH_SIZE - 1)) = (unat Index + 1) mod TOKEN_HASH_SIZE"
proof -
  have "unat (Index + 1) = (unat Index + 1) mod 2 ^ 32"
    by (simp add: unat_word_ariths)
  moreover have "((unat Index + 1) mod 2 ^ 32) mod TOKEN_HASH_SIZE = (unat Index + 1) mod TOKEN_HASH_SIZE"
    unfolding TOKEN_HASH_SIZE_def by (rule mod_mod_cancel) simp
  ultimately show ?thesis
    by (simp add: mask_index_unat)
qed

lemma slot_less: "slot Index k < TOKEN_HASH_SIZE"
  by (simp add: slot_def TOKEN_HASH_SIZE_def)

lemma slot_0: "unat Index < TOKEN_HASH_SIZE \<Longrightarrow> slot Index 0 = unat Index"
  by (simp add: slot_def)

lemma slot_next:
  "slot ((Index + 1) AND (of_nat TOKEN_HASH_SIZE - 1)) k = slot Index (Suc k)"
  by (simp add: slot_def next_index_unat mod_add_left_eq)

lemma next_index_less:
  "unat (((Index :: u32) + 1) AND (of_nat TOKEN_HASH_SIZE - 1)) < TOKEN_HASH_SIZE"
  by (rule mask_index_less)

lemma AddToken_probe_free:
  "length TokenHash = TOKEN_HASH_SIZE \<Longrightarrow> unat Index < TOKEN_HASH_SIZE \<Longrightarrow>
   AddToken_probe TokenHash Index Iterations = probe_free (map GLToken.Hash TokenHash) Index Iterations"
proof (induction TokenHash Index Iterations rule: AddToken_probe.induct)
  case (1 TokenHash Index Iterations)
  show ?case
    using "1.prems" "1.IH" next_index_less [of Index]
    by (subst AddToken_probe.simps, subst probe_free.simps) simp
qed

lemma AddToken_Arb_probe_free:
  "length TokenHash = TOKEN_HASH_SIZE \<Longrightarrow> unat Index < TOKEN_HASH_SIZE \<Longrightarrow>
   AddToken_Arb_probe TokenHash Index Iterations =
     probe_free (map GLArbToken.Hash TokenHash) Index Iterations"
proof (induction TokenHash Index Iterations rule: AddToken_Arb_probe.induct)
  case (1 TokenHash Index Iterations)
  show ?case
    using "1.prems" "1.IH" next_index_less [of Index]
    by (subst AddToken_Arb_probe.simps, subst probe_free.simps) simp
qed

lemma Contains_loop_probe_stop:
  "length TokenHash = TOKEN_HASH_SIZE \<Longrightarrow> unat Index < TOKEN_HASH_SIZE \<Longrightarrow>
   Contains_loop TokenHash Token Index Iterations =
     snd (probe_stop (map GLToken.Hash TokenHash) (GLToken.Hash Token) Index Iterations)"
proof (induction TokenHash Token Index Iterations rule: Contains_loop.induct)
  case (1 TokenHash Token Index Iterations)
  show ?case
    using "1.prems" "1.IH" next_index_less [of Index]
    by (subst Contains_loop.simps, subst probe_stop.simps) simp
qed

lemma GetToken_loop_probe_stop:
  "length TokenHash = TOKEN_HASH_SIZE \<Longrightarrow> unat Index < TOKEN_HASH_SIZE \<Longrightarrow>
   GetToken_loop TokenHash q Index Iterations =
     fst (probe_stop (map GLArbToken.Hash TokenHash) q Index Iterations)"
proof (induction TokenHash q Index Iterations rule: GetToken_loop.induct)
  case (1 TokenHash q Index Iterations)
  show ?case
    using "1.prems" "1.IH" next_index_less [of Index]
    by (subst GetToken_loop.simps, subst probe_stop.simps) simp
qed

lemma probe_free_found:
  "hs ! slot Index d = 0 \<Longrightarrow> \<forall>e<d. hs ! slot Index e \<noteq> 0 \<Longrightarrow>
   Iterations + d \<le> TOKEN_HASH_SIZE \<Longrightarrow> unat Index < TOKEN_HASH_SIZE \<Longrightarrow>
   \<exists>M. probe_free hs Index Iterations = (M, Iterations + d) \<and> unat M = slot Index d"
proof (induction d arbitrary: Index Iterations)
  case 0
  then show ?case
    by (subst probe_free.simps) (simp add: slot_0)
next
  case (Suc d)
  let ?next = "(Index + 1) AND (of_nat TOKEN_HASH_SIZE - 1)"
  from Suc.prems have occ: "hs ! unat Index \<noteq> 0"
    using slot_0 [of Index] by (metis zero_less_Suc)
  have "\<exists>M. probe_free hs ?next (Iterations + 1) = (M, (Iterations + 1) + d) \<and> unat M = slot ?next d"
  proof (rule Suc.IH)
    show "hs ! slot ?next d = 0" using Suc.prems(1) by (simp add: slot_next)
    show "\<forall>e<d. hs ! slot ?next e \<noteq> 0" using Suc.prems(2) by (simp add: slot_next)
    show "Iterations + 1 + d \<le> TOKEN_HASH_SIZE" using Suc.prems(3) by simp
    show "unat ?next < TOKEN_HASH_SIZE" by (rule next_index_less)
  qed
  moreover have "Iterations < TOKEN_HASH_SIZE" using Suc.prems(3) by simp
  ultimately show ?case
    using occ by (subst probe_free.simps) (simp add: slot_next)
qed

lemma probe_free_full:
  "\<forall>k. hs ! slot Index k \<noteq> 0 \<Longrightarrow> Iterations \<le> TOKEN_HASH_SIZE \<Longrightarrow>
   unat Index < TOKEN_HASH_SIZE \<Longrightarrow>
   snd (probe_free hs Index Iterations) = TOKEN_HASH_SIZE + 1"
proof (induction hs Index Iterations rule: probe_free.induct)
  case (1 hs Index Iterations)
  from "1.prems" have occ: "hs ! unat Index \<noteq> 0"
    using slot_0 [of Index] by metis
  show ?case
  proof (cases "Iterations < TOKEN_HASH_SIZE")
    case True
    let ?next = "(Index + 1) AND (of_nat TOKEN_HASH_SIZE - 1)"
    have "snd (probe_free hs ?next (Iterations + 1)) = TOKEN_HASH_SIZE + 1"
    proof (rule "1.IH")
      show "hs ! unat Index \<noteq> 0" by (rule occ)
      show "Iterations < TOKEN_HASH_SIZE" by (rule True)
      show "\<forall>k. hs ! slot ?next k \<noteq> 0" using "1.prems"(1) by (simp add: slot_next)
      show "Iterations + 1 \<le> TOKEN_HASH_SIZE" using True by simp
      show "unat ?next < TOKEN_HASH_SIZE" by (rule next_index_less)
    qed
    then show ?thesis
      using occ True by (subst probe_free.simps) simp
  next
    case False
    with "1.prems" have "Iterations = TOKEN_HASH_SIZE" by simp
    then show ?thesis
      using occ by (subst probe_free.simps) simp
  qed
qed

lemma probe_stop_found:
  "hs ! slot Index d = 0 \<or> hs ! slot Index d = q \<Longrightarrow>
   \<forall>e<d. hs ! slot Index e \<noteq> 0 \<and> hs ! slot Index e \<noteq> q \<Longrightarrow>
   Iterations + d < TOKEN_HASH_SIZE \<Longrightarrow> unat Index < TOKEN_HASH_SIZE \<Longrightarrow>
   \<exists>M. probe_stop hs q Index Iterations = (M, hs ! slot Index d \<noteq> 0) \<and> unat M = slot Index d"
proof (induction d arbitrary: Index Iterations)
  case 0
  then show ?case
    by (subst probe_stop.simps) (auto simp add: slot_0)
next
  case (Suc d)
  let ?next = "(Index + 1) AND (of_nat TOKEN_HASH_SIZE - 1)"
  from Suc.prems have occ: "hs ! unat Index \<noteq> 0 \<and> hs ! unat Index \<noteq> q"
    using slot_0 [of Index] by (metis zero_less_Suc)
  have "\<exists>M. probe_stop hs q ?next (Iterations + 1) = (M, hs ! slot ?next d \<noteq> 0) \<and>
          unat M = slot ?next d"
  proof (rule Suc.IH)
    show "hs ! slot ?next d = 0 \<or> hs ! slot ?next d = q"
      using Suc.prems(1) by (simp add: slot_next)
    show "\<forall>e<d. hs ! slot ?next e \<noteq> 0 \<and> hs ! slot ?next e \<noteq> q"
      using Suc.prems(2) by (simp add: slot_next)
    show "Iterations + 1 + d < TOKEN_HASH_SIZE" using Suc.prems(3) by simp
    show "unat ?next < TOKEN_HASH_SIZE" by (rule next_index_less)
  qed
  moreover have "Iterations < TOKEN_HASH_SIZE" using Suc.prems(3) by simp
  ultimately show ?case
    using occ by (subst probe_stop.simps) (simp add: slot_next)
qed

lemma probe_stop_full:
  "\<forall>k. hs ! slot Index k \<noteq> 0 \<and> hs ! slot Index k \<noteq> q \<Longrightarrow>
   Iterations \<le> TOKEN_HASH_SIZE \<Longrightarrow> unat Index < TOKEN_HASH_SIZE \<Longrightarrow>
   \<exists>M. probe_stop hs q Index Iterations = (M, False) \<and>
       unat M = slot Index (TOKEN_HASH_SIZE - Iterations)"
proof (induction hs q Index Iterations rule: probe_stop.induct)
  case (1 hs q Index Iterations)
  from "1.prems" have occ: "hs ! unat Index \<noteq> 0 \<and> hs ! unat Index \<noteq> q"
    using slot_0 [of Index] by metis
  show ?case
  proof (cases "Iterations < TOKEN_HASH_SIZE")
    case True
    let ?next = "(Index + 1) AND (of_nat TOKEN_HASH_SIZE - 1)"
    have "\<exists>M. probe_stop hs q ?next (Iterations + 1) = (M, False) \<and>
            unat M = slot ?next (TOKEN_HASH_SIZE - (Iterations + 1))"
    proof (rule "1.IH")
      show "hs ! unat Index \<noteq> 0 \<and> Iterations < TOKEN_HASH_SIZE" using occ True by simp
      show "hs ! unat Index \<noteq> q" using occ by simp
      show "\<forall>k. hs ! slot ?next k \<noteq> 0 \<and> hs ! slot ?next k \<noteq> q"
        using "1.prems"(1) by (simp add: slot_next)
      show "Iterations + 1 \<le> TOKEN_HASH_SIZE" using True by simp
      show "unat ?next < TOKEN_HASH_SIZE" by (rule next_index_less)
    qed
    moreover have "Suc (TOKEN_HASH_SIZE - (Iterations + 1)) = TOKEN_HASH_SIZE - Iterations"
      using True by simp
    ultimately show ?thesis
      using occ True by (subst probe_stop.simps) (simp add: slot_next)
  next
    case False
    with "1.prems" have "Iterations = TOKEN_HASH_SIZE" by simp
    then show ?thesis
      using occ "1.prems"(3) by (subst probe_stop.simps) (simp add: slot_0)
  qed
qed

lemma probe_order_slot:
  "probe_order h = map (slot (h AND (of_nat TOKEN_HASH_SIZE - 1))) [0..<TOKEN_HASH_SIZE]"
  by (simp add: probe_order_def slot_def)

lemma slot_in_probe_order: "slot (h AND (of_nat TOKEN_HASH_SIZE - 1)) k \<in> set (probe_order h)"
proof -
  let ?I = "h AND (of_nat TOKEN_HASH_SIZE - 1)"
  have "slot ?I k = slot ?I (k mod TOKEN_HASH_SIZE)"
    by (simp add: slot_def mod_add_right_eq)
  moreover have "k mod TOKEN_HASH_SIZE < TOKEN_HASH_SIZE"
    by (simp add: TOKEN_HASH_SIZE_def)
  ultimately show ?thesis
    unfolding probe_order_slot by (metis atLeast0LessThan imageI lessThan_iff set_map set_upt)
qed

lemma find_probe_order_Some:
  assumes "find P (probe_order h) = Some i"
  shows "\<exists>d<TOKEN_HASH_SIZE. i = slot (h AND (of_nat TOKEN_HASH_SIZE - 1)) d \<and> P i \<and>
           (\<forall>e<d. \<not> P (slot (h AND (of_nat TOKEN_HASH_SIZE - 1)) e))"
proof -
  let ?I = "h AND (of_nat TOKEN_HASH_SIZE - 1)"
  from assms obtain d where d: "d < length (probe_order h)" "P (probe_order h ! d)"
      "i = probe_order h ! d" "\<forall>e<d. \<not> P (probe_order h ! e)"
    unfolding find_Some_iff by blast
  have len: "length (probe_order h) = TOKEN_HASH_SIZE"
    by (simp add: probe_order_def)
  have nth: "probe_order h ! e = slot ?I e" if "e < TOKEN_HASH_SIZE" for e
    using that unfolding probe_order_slot by simp
  have "d < TOKEN_HASH_SIZE" using d(1) len by simp
  moreover have "i = slot ?I d" using d(3) nth calculation by simp
  moreover have "P i" using d(2,3) by simp
  moreover have "\<forall>e<d. \<not> P (slot ?I e)"
    using d(4) nth calculation(1) by (metis less_trans)
  ultimately show ?thesis by blast
qed

lemma find_probe_order_None:
  assumes "find P (probe_order h) = None"
  shows "\<not> P (slot (h AND (of_nat TOKEN_HASH_SIZE - 1)) k)"
  using assms slot_in_probe_order [of h k] unfolding find_None_iff by blast

lemma probe_free_first_empty:
  assumes "length hs = TOKEN_HASH_SIZE"
  shows "(case probe_free hs (h AND (of_nat TOKEN_HASH_SIZE - 1)) 0 of (M, Iterations) \<Rightarrow>
           if Iterations < TOKEN_HASH_SIZE then Some (unat M) else None) =
         find (\<lambda>i. hs ! i = 0) (probe_order h)"
proof (cases "find (\<lambda>i. hs ! i = 0) (probe_order h)")
  case None
  let ?I = "h AND (of_nat TOKEN_HASH_SIZE - 1)"
  have "\<forall>k. hs ! slot ?I k \<noteq> 0"
    using find_probe_order_None [OF None] by simp
  then have "snd (probe_free hs ?I 0) = TOKEN_HASH_SIZE + 1"
    by (rule probe_free_full) (simp_all add: mask_index_less)
  then show ?thesis
    using None by (simp add: case_prod_beta)
next
  case (Some i)
  let ?I = "h AND (of_nat TOKEN_HASH_SIZE - 1)"
  from find_probe_order_Some [OF Some] obtain d where d: "d < TOKEN_HASH_SIZE"
      "i = slot ?I d" "hs ! i = 0" "\<forall>e<d. hs ! slot ?I e \<noteq> 0"
    by blast
  have "\<exists>M. probe_free hs ?I 0 = (M, 0 + d) \<and> unat M = slot ?I d"
    by (rule probe_free_found) (use d in \<open>simp_all add: mask_index_less\<close>)
  then show ?thesis
    using Some d by auto
qed

lemma probe_stop_result:
  "snd (probe_stop hs q (h AND (of_nat TOKEN_HASH_SIZE - 1)) 0) =
     (case find (\<lambda>i. hs ! i = 0 \<or> hs ! i = q) (probe_order h) of
        None \<Rightarrow> False | Some i \<Rightarrow> hs ! i \<noteq> 0)"
proof (cases "find (\<lambda>i. hs ! i = 0 \<or> hs ! i = q) (probe_order h)")
  case None
  let ?I = "h AND (of_nat TOKEN_HASH_SIZE - 1)"
  have "\<forall>k. hs ! slot ?I k \<noteq> 0 \<and> hs ! slot ?I k \<noteq> q"
    using find_probe_order_None [OF None] by simp
  then have "\<exists>M. probe_stop hs q ?I 0 = (M, False) \<and> unat M = slot ?I (TOKEN_HASH_SIZE - 0)"
    by (rule probe_stop_full) (simp_all add: mask_index_less)
  then show ?thesis
    using None by auto
next
  case (Some i)
  let ?I = "h AND (of_nat TOKEN_HASH_SIZE - 1)"
  from find_probe_order_Some [OF Some] obtain d where d: "d < TOKEN_HASH_SIZE"
      "i = slot ?I d" "hs ! i = 0 \<or> hs ! i = q"
      "\<forall>e<d. hs ! slot ?I e \<noteq> 0 \<and> hs ! slot ?I e \<noteq> q"
    by auto
  have "\<exists>M. probe_stop hs q ?I 0 = (M, hs ! slot ?I d \<noteq> 0) \<and> unat M = slot ?I d"
    by (rule probe_stop_found) (use d in \<open>simp_all add: mask_index_less\<close>)
  then show ?thesis
    using Some d by auto
qed

lemma probe_stop_slot:
  assumes "q \<noteq> 0"
  shows "(let M = fst (probe_stop hs q (h AND (of_nat TOKEN_HASH_SIZE - 1)) 0)
          in if hs ! unat M \<noteq> q then None else Some (unat M)) =
         (case find (\<lambda>i. hs ! i = 0 \<or> hs ! i = q) (probe_order h) of
            None \<Rightarrow> None | Some i \<Rightarrow> if hs ! i \<noteq> 0 then Some i else None)"
proof (cases "find (\<lambda>i. hs ! i = 0 \<or> hs ! i = q) (probe_order h)")
  case None
  let ?I = "h AND (of_nat TOKEN_HASH_SIZE - 1)"
  have all: "\<forall>k. hs ! slot ?I k \<noteq> 0 \<and> hs ! slot ?I k \<noteq> q"
    using find_probe_order_None [OF None] by simp
  then have "\<exists>M. probe_stop hs q ?I 0 = (M, False) \<and> unat M = slot ?I (TOKEN_HASH_SIZE - 0)"
    by (rule probe_stop_full) (simp_all add: mask_index_less)
  moreover have "slot ?I TOKEN_HASH_SIZE = unat ?I"
    using mask_index_less [of h] by (simp add: slot_def)
  moreover have "hs ! unat ?I \<noteq> q"
    using all slot_0 [of ?I] mask_index_less [of h] by metis
  ultimately show ?thesis
    using None by auto
next
  case (Some i)
  let ?I = "h AND (of_nat TOKEN_HASH_SIZE - 1)"
  from find_probe_order_Some [OF Some] obtain d where d: "d < TOKEN_HASH_SIZE"
      "i = slot ?I d" "hs ! i = 0 \<or> hs ! i = q"
      "\<forall>e<d. hs ! slot ?I e \<noteq> 0 \<and> hs ! slot ?I e \<noteq> q"
    by auto
  have "\<exists>M. probe_stop hs q ?I 0 = (M, hs ! slot ?I d \<noteq> 0) \<and> unat M = slot ?I d"
    by (rule probe_stop_found) (use d in \<open>simp_all add: mask_index_less\<close>)
  then show ?thesis
    using Some d assms by auto
qed

lemma find_SomeD: "find P xs = Some x \<Longrightarrow> x \<in> set xs \<and> P x"
  by (induction xs) (auto split: if_splits)

lemma probe_stop_index_less:
  "unat Index < TOKEN_HASH_SIZE \<Longrightarrow> unat (fst (probe_stop hs q Index Iterations)) < TOKEN_HASH_SIZE"
proof (induction hs q Index Iterations rule: probe_stop.induct)
  case (1 hs q Index Iterations)
  then show ?case
    using next_index_less [of Index] by (subst probe_stop.simps) simp
qed

lemma set_probe_order: "i \<in> set (probe_order h) \<Longrightarrow> i < TOKEN_HASH_SIZE"
  by (auto simp add: probe_order_def TOKEN_HASH_SIZE_def)

lemma find_map_nth:
  "\<forall>i\<in>set is. i < length xs \<Longrightarrow> find (\<lambda>i. P (map f xs ! i)) is = find (\<lambda>i. P (f (xs ! i))) is"
  by (induction "is") auto

lemma AddToken_eq:
  assumes "length TokenHash = TOKEN_HASH_SIZE"
  shows "AddToken TokenHash Token =
           (0, case find (\<lambda>i. GLToken.Hash (TokenHash ! i) = 0) (probe_order (GLToken.Hash Token)) of
                 None \<Rightarrow> TokenHash | Some i \<Rightarrow> TokenHash[i := Token])"
proof -
  let ?I = "GLToken.Hash Token AND (of_nat TOKEN_HASH_SIZE - 1)"
  let ?hs = "map GLToken.Hash TokenHash"
  have "AddToken_probe TokenHash ?I 0 = probe_free ?hs ?I 0"
    using assms by (rule AddToken_probe_free) (rule mask_index_less)
  moreover have "find (\<lambda>i. ?hs ! i = 0) (probe_order (GLToken.Hash Token)) =
      find (\<lambda>i. GLToken.Hash (TokenHash ! i) = 0) (probe_order (GLToken.Hash Token))"
    by (rule find_map_nth) (simp add: assms set_probe_order)
  ultimately show ?thesis
    using probe_free_first_empty [of ?hs "GLToken.Hash Token"] assms
    by (auto simp add: AddToken_def Let_def split: prod.splits option.splits if_splits)
qed

lemma AddToken_Arb_eq:
  assumes "length ArbHash = TOKEN_HASH_SIZE"
  shows "AddToken_Arb ArbHash ArbToken =
           (case find (\<lambda>i. GLArbToken.Hash (ArbHash ! i) = 0)
                   (probe_order (GLArbToken.Hash ArbToken)) of
              None \<Rightarrow> (None, ArbHash) | Some i \<Rightarrow> (Some i, ArbHash[i := ArbToken]))"
proof -
  let ?I = "GLArbToken.Hash ArbToken AND (of_nat TOKEN_HASH_SIZE - 1)"
  let ?hs = "map GLArbToken.Hash ArbHash"
  have "AddToken_Arb_probe ArbHash ?I 0 = probe_free ?hs ?I 0"
    using assms by (rule AddToken_Arb_probe_free) (rule mask_index_less)
  moreover have "find (\<lambda>i. ?hs ! i = 0) (probe_order (GLArbToken.Hash ArbToken)) =
      find (\<lambda>i. GLArbToken.Hash (ArbHash ! i) = 0) (probe_order (GLArbToken.Hash ArbToken))"
    by (rule find_map_nth) (simp add: assms set_probe_order)
  ultimately show ?thesis
    using probe_free_first_empty [of ?hs "GLArbToken.Hash ArbToken"] assms
    by (auto simp add: AddToken_Arb_def Let_def split: prod.splits option.splits if_splits)
qed

lemma Contains_eq:
  assumes "length TokenHash = TOKEN_HASH_SIZE"
  shows "Contains TokenHash Token =
           (case find (\<lambda>i. GLToken.Hash (TokenHash ! i) = 0 \<or>
                           GLToken.Hash (TokenHash ! i) = GLToken.Hash Token)
                   (probe_order (GLToken.Hash Token)) of
              None \<Rightarrow> False | Some i \<Rightarrow> GLToken.Hash (TokenHash ! i) \<noteq> 0)"
proof -
  let ?h = "GLToken.Hash Token"
  let ?hs = "map GLToken.Hash TokenHash"
  have "Contains TokenHash Token = snd (probe_stop ?hs ?h (?h AND (of_nat TOKEN_HASH_SIZE - 1)) 0)"
    unfolding Contains_def using assms by (rule Contains_loop_probe_stop) (rule mask_index_less)
  also have "\<dots> = (case find (\<lambda>i. ?hs ! i = 0 \<or> ?hs ! i = ?h) (probe_order ?h) of
                      None \<Rightarrow> False | Some i \<Rightarrow> ?hs ! i \<noteq> 0)"
    by (rule probe_stop_result)
  also have "find (\<lambda>i. ?hs ! i = 0 \<or> ?hs ! i = ?h) (probe_order ?h) =
      find (\<lambda>i. GLToken.Hash (TokenHash ! i) = 0 \<or> GLToken.Hash (TokenHash ! i) = ?h)
        (probe_order ?h)"
    by (rule find_map_nth [where P = "\<lambda>x. x = 0 \<or> x = ?h"]) (simp add: assms set_probe_order)
  finally show ?thesis
    using assms
    by (auto split: option.splits dest!: find_SomeD dest: set_probe_order)
qed

lemma GetToken_eq:
  assumes "length ArbHash = TOKEN_HASH_SIZE"
  shows "GetToken ArbHash q =
           (case find (\<lambda>i. GLArbToken.Hash (ArbHash ! i) = 0 \<or> GLArbToken.Hash (ArbHash ! i) = q)
                   (probe_order q) of
              None \<Rightarrow> None | Some i \<Rightarrow> if GLArbToken.Hash (ArbHash ! i) \<noteq> 0 then Some i else None)"
proof -
  let ?hs = "map GLArbToken.Hash ArbHash"
  let ?I = "q AND (of_nat TOKEN_HASH_SIZE - 1)"
  have conv: "find (\<lambda>i. ?hs ! i = 0 \<or> ?hs ! i = q) (probe_order q) =
      find (\<lambda>i. GLArbToken.Hash (ArbHash ! i) = 0 \<or> GLArbToken.Hash (ArbHash ! i) = q)
        (probe_order q)"
    by (rule find_map_nth [where P = "\<lambda>x. x = 0 \<or> x = q"]) (simp add: assms set_probe_order)
  show ?thesis
  proof (cases "q = 0")
    case True
    then show ?thesis
      by (auto simp add: GetToken_def split: option.splits dest!: find_SomeD)
  next
    case False
    have loop: "GetToken_loop ArbHash q ?I 0 = fst (probe_stop ?hs q ?I 0)"
      using assms by (rule GetToken_loop_probe_stop) (rule mask_index_less)
    have M: "unat (fst (probe_stop ?hs q ?I 0)) < TOKEN_HASH_SIZE"
      by (rule probe_stop_index_less) (rule mask_index_less)
    have "GetToken ArbHash q =
        (let M = fst (probe_stop ?hs q ?I 0) in if ?hs ! unat M \<noteq> q then None else Some (unat M))"
      using False M assms by (simp add: GetToken_def loop Let_def)
    also have "\<dots> = (case find (\<lambda>i. ?hs ! i = 0 \<or> ?hs ! i = q) (probe_order q) of
                        None \<Rightarrow> None | Some i \<Rightarrow> if ?hs ! i \<noteq> 0 then Some i else None)"
      by (rule probe_stop_slot [OF False])
    also have "\<dots> = (case find (\<lambda>i. GLArbToken.Hash (ArbHash ! i) = 0 \<or>
                                    GLArbToken.Hash (ArbHash ! i) = q) (probe_order q) of
                        None \<Rightarrow> None
                      | Some i \<Rightarrow> if GLArbToken.Hash (ArbHash ! i) \<noteq> 0 then Some i else None)"
      unfolding conv using assms
      by (auto split: option.splits dest!: find_SomeD dest: set_probe_order)
    finally show ?thesis .
  qed
qed

lemma find_probe_order_home:
  assumes "P (unat (h AND (of_nat TOKEN_HASH_SIZE - 1)))"
  shows "find P (probe_order h) = Some (unat (h AND (of_nat TOKEN_HASH_SIZE - 1)))"
proof -
  have "0 < TOKEN_HASH_SIZE"
    by (simp add: TOKEN_HASH_SIZE_def)
  then have "[0..<TOKEN_HASH_SIZE] = 0 # [Suc 0..<TOKEN_HASH_SIZE]"
    by (rule upt_conv_Cons)
  moreover have "(unat (h AND (of_nat TOKEN_HASH_SIZE - 1)) + 0) mod TOKEN_HASH_SIZE =
      unat (h AND (of_nat TOKEN_HASH_SIZE - 1))"
    using mask_index_less [of h] by simp
  ultimately show ?thesis
    using assms unfolding probe_order_def by simp
qed

lemma find_probe_order_full:
  assumes "\<forall>i<TOKEN_HASH_SIZE. \<not> P i"
  shows "find P (probe_order h) = None"
  unfolding find_None_iff using assms set_probe_order by blast

lemma calloc_GLToken_length: "length calloc_GLToken = TOKEN_HASH_SIZE"
  by (simp add: calloc_GLToken_def)

lemma calloc_GLArbToken_length: "length calloc_GLArbToken = TOKEN_HASH_SIZE"
  by (simp add: calloc_GLArbToken_def)

lemma calloc_GLToken_nth: "i < TOKEN_HASH_SIZE \<Longrightarrow> calloc_GLToken ! i = GLToken_zero"
  by (simp add: calloc_GLToken_def)

lemma calloc_GLArbToken_nth: "i < TOKEN_HASH_SIZE \<Longrightarrow> calloc_GLArbToken ! i = GLArbToken_zero"
  by (simp add: calloc_GLArbToken_def)

section \<open>Lookup and insertion\<close>

text \<open>
  C2. Membership (\<^verbatim>\<open>Contains\<close>) and lookup (\<^verbatim>\<open>GetToken\<close>) walk the probe cycle of the
  query hash and stop at the first slot that is empty or whose stored hash equals the query
  hash; the answer is "present" (the slot found) exactly when that slot is occupied, and
  "absent" when an empty slot comes first or the whole cycle has been walked.  Only stored
  hashes are compared, never the symbol text: a token with the same hash as another gets
  the same answer.
\<close>

theorem lookup_compares_hash_only:
  assumes "length TokenHash = TOKEN_HASH_SIZE" and "length ArbHash = TOKEN_HASH_SIZE"
  shows "Contains TokenHash Token =
           (case find (\<lambda>i. GLToken.Hash (TokenHash ! i) = 0 \<or>
                           GLToken.Hash (TokenHash ! i) = GLToken.Hash Token)
                   (probe_order (GLToken.Hash Token)) of
              None \<Rightarrow> False | Some i \<Rightarrow> GLToken.Hash (TokenHash ! i) \<noteq> 0) \<and>
         GetToken ArbHash q =
           (case find (\<lambda>i. GLArbToken.Hash (ArbHash ! i) = 0 \<or> GLArbToken.Hash (ArbHash ! i) = q)
                   (probe_order q) of
              None \<Rightarrow> None
            | Some i \<Rightarrow> if GLArbToken.Hash (ArbHash ! i) \<noteq> 0 then Some i else None) \<and>
         (\<forall>Token'. GLToken.Hash Token' = GLToken.Hash Token \<longrightarrow>
             Contains TokenHash Token' = Contains TokenHash Token)"
  using assms by (simp add: Contains_eq GetToken_eq)

theorem lookup_compares_hash_only_witness:
  "length (calloc_GLToken[1777 := \<lparr>GLToken.Value = \<lparr>Chars = ''glNM8f'', Length = 6\<rparr>,
             GLToken.Hash = 3989120753\<rparr>]) = TOKEN_HASH_SIZE \<and>
   length (calloc_GLArbToken[1777 := GLArbToken_zero\<lparr>GLArbToken.Value := \<lparr>Chars = ''glNM8f'', Length = 6\<rparr>,
             GLArbToken.Hash := 3989120753\<rparr>]) = TOKEN_HASH_SIZE \<and>
   GetStringHash \<lparr>Chars = ''glNM8f'', Length = 6\<rparr> = 3989120753 \<and>
   GetStringHash \<lparr>Chars = ''glR2La'', Length = 6\<rparr> = 3989120753 \<and>
   Contains (calloc_GLToken[1777 := \<lparr>GLToken.Value = \<lparr>Chars = ''glNM8f'', Length = 6\<rparr>,
             GLToken.Hash = 3989120753\<rparr>])
     \<lparr>GLToken.Value = \<lparr>Chars = ''glR2La'', Length = 6\<rparr>, GLToken.Hash = 3989120753\<rparr> \<and>
   GetToken (calloc_GLArbToken[1777 := GLArbToken_zero\<lparr>GLArbToken.Value := \<lparr>Chars = ''glNM8f'', Length = 6\<rparr>,
             GLArbToken.Hash := 3989120753\<rparr>]) 3989120753 = Some 1777"
proof -
  let ?T = "calloc_GLToken[1777 := \<lparr>GLToken.Value = \<lparr>Chars = ''glNM8f'', Length = 6\<rparr>,
             GLToken.Hash = 3989120753\<rparr>]"
  let ?A = "calloc_GLArbToken[1777 := GLArbToken_zero\<lparr>GLArbToken.Value := \<lparr>Chars = ''glNM8f'', Length = 6\<rparr>,
             GLArbToken.Hash := 3989120753\<rparr>]"
  let ?Token = "\<lparr>GLToken.Value = \<lparr>Chars = ''glR2La'', Length = 6\<rparr>, GLToken.Hash = 3989120753\<rparr>"
  have lenT: "length ?T = TOKEN_HASH_SIZE" by (simp add: calloc_GLToken_length)
  have lenA: "length ?A = TOKEN_HASH_SIZE" by (simp add: calloc_GLArbToken_length)
  have home: "unat ((3989120753 :: u32) AND (of_nat TOKEN_HASH_SIZE - 1)) = 1777"
    by (simp add: TOKEN_HASH_SIZE_def)
  have less: "1777 < TOKEN_HASH_SIZE"
    by (simp add: TOKEN_HASH_SIZE_def)
  have fT: "find (\<lambda>i. GLToken.Hash (?T ! i) = 0 \<or> GLToken.Hash (?T ! i) = GLToken.Hash ?Token)
      (probe_order (GLToken.Hash ?Token)) = Some 1777"
    using find_probe_order_home [of "\<lambda>i. GLToken.Hash (?T ! i) = 0 \<or> GLToken.Hash (?T ! i) = GLToken.Hash ?Token" "GLToken.Hash ?Token"]
    by (simp add: home less calloc_GLToken_length)
  have fA: "find (\<lambda>i. GLArbToken.Hash (?A ! i) = 0 \<or> GLArbToken.Hash (?A ! i) = 3989120753)
      (probe_order 3989120753) = Some 1777"
    using find_probe_order_home [of "\<lambda>i. GLArbToken.Hash (?A ! i) = 0 \<or> GLArbToken.Hash (?A ! i) = 3989120753" 3989120753]
    by (simp add: home less calloc_GLArbToken_length)
  have hA: "GetStringHash \<lparr>Chars = ''glNM8f'', Length = 6\<rparr> = 3989120753" by code_simp
  have hB: "GetStringHash \<lparr>Chars = ''glR2La'', Length = 6\<rparr> = 3989120753" by code_simp
  from lookup_compares_hash_only [OF lenT lenA, of ?Token 3989120753]
  have "Contains ?T ?Token" and "GetToken ?A 3989120753 = Some 1777"
    unfolding fT fA by (simp_all add: less calloc_GLToken_length calloc_GLArbToken_length)
  with lenT lenA hA hB show ?thesis by simp
qed

text \<open>
  C3 (amended). An insert into a table of \<^verbatim>\<open>TOKEN_HASH_SIZE\<close> slots walks the probe
  cycle that starts at \<^verbatim>\<open>Hash & (TOKEN_HASH_SIZE - 1)\<close> and writes the entry into the first
  slot whose stored hash is zero; when the cycle has no such slot the table is returned
  unchanged.  The result-set insert returns 0 in both cases; the registry insert returns
  the slot it wrote, and the null pointer when it dropped the entry.
\<close>

theorem AddToken_first_empty_or_dropped:
  assumes "length TokenHash = TOKEN_HASH_SIZE" and "length ArbHash = TOKEN_HASH_SIZE"
  shows "AddToken TokenHash Token =
           (0, case find (\<lambda>i. GLToken.Hash (TokenHash ! i) = 0) (probe_order (GLToken.Hash Token)) of
                 None \<Rightarrow> TokenHash | Some i \<Rightarrow> TokenHash[i := Token]) \<and>
         AddToken_Arb ArbHash ArbToken =
           (case find (\<lambda>i. GLArbToken.Hash (ArbHash ! i) = 0)
                   (probe_order (GLArbToken.Hash ArbToken)) of
              None \<Rightarrow> (None, ArbHash) | Some i \<Rightarrow> (Some i, ArbHash[i := ArbToken]))"
  using assms by (simp add: AddToken_eq AddToken_Arb_eq)

theorem AddToken_first_empty_or_dropped_witness:
  "length calloc_GLToken = TOKEN_HASH_SIZE \<and>
   length (replicate TOKEN_HASH_SIZE (GLArbToken_zero\<lparr>GLArbToken.Hash := 1\<rparr>)) = TOKEN_HASH_SIZE \<and>
   AddToken calloc_GLToken \<lparr>GLToken.Value = \<lparr>Chars = ''glClear'', Length = 7\<rparr>, GLToken.Hash = 0xb5c6eb8f\<rparr> =
     (0, calloc_GLToken[2959 := \<lparr>GLToken.Value = \<lparr>Chars = ''glClear'', Length = 7\<rparr>, GLToken.Hash = 0xb5c6eb8f\<rparr>]) \<and>
   AddToken_Arb (replicate TOKEN_HASH_SIZE (GLArbToken_zero\<lparr>GLArbToken.Hash := 1\<rparr>))
       (GLArbToken_zero\<lparr>GLArbToken.Hash := 0xb5c6eb8f\<rparr>) =
     (None, replicate TOKEN_HASH_SIZE (GLArbToken_zero\<lparr>GLArbToken.Hash := 1\<rparr>))"
proof -
  let ?Token = "\<lparr>GLToken.Value = \<lparr>Chars = ''glClear'', Length = 7\<rparr>, GLToken.Hash = 0xb5c6eb8f\<rparr>"
  let ?A = "replicate TOKEN_HASH_SIZE (GLArbToken_zero\<lparr>GLArbToken.Hash := 1\<rparr>)"
  let ?ArbToken = "GLArbToken_zero\<lparr>GLArbToken.Hash := 0xb5c6eb8f\<rparr>"
  have lenT: "length calloc_GLToken = TOKEN_HASH_SIZE" by (rule calloc_GLToken_length)
  have lenA: "length ?A = TOKEN_HASH_SIZE" by simp
  have home: "unat ((0xb5c6eb8f :: u32) AND (of_nat TOKEN_HASH_SIZE - 1)) = 2959"
    by (simp add: TOKEN_HASH_SIZE_def)
  have less: "2959 < TOKEN_HASH_SIZE"
    by (simp add: TOKEN_HASH_SIZE_def)
  have fT: "find (\<lambda>i. GLToken.Hash (calloc_GLToken ! i) = 0) (probe_order (GLToken.Hash ?Token)) = Some 2959"
    using find_probe_order_home [of "\<lambda>i. GLToken.Hash (calloc_GLToken ! i) = 0" "GLToken.Hash ?Token"]
    by (simp add: home less calloc_GLToken_nth GLToken_zero_def)
  have fA: "find (\<lambda>i. GLArbToken.Hash (?A ! i) = 0) (probe_order (GLArbToken.Hash ?ArbToken)) = None"
    by (rule find_probe_order_full) simp
  from AddToken_first_empty_or_dropped [OF lenT lenA, of ?Token ?ArbToken]
  show ?thesis
    unfolding fT fA using lenT by simp
qed

text \<open>
  The registry insert tells its caller about a dropped entry: on a table whose slots are
  all occupied it returns the null pointer, on the empty table the slot it wrote.
\<close>

theorem AddToken_Arb_drop_returns_null:
  "fst (AddToken_Arb (replicate TOKEN_HASH_SIZE (GLArbToken_zero\<lparr>GLArbToken.Hash := 1\<rparr>))
          (GLArbToken_zero\<lparr>GLArbToken.Hash := 0xb5c6eb8f\<rparr>)) = None \<and>
   fst (AddToken_Arb calloc_GLArbToken (GLArbToken_zero\<lparr>GLArbToken.Hash := 0xb5c6eb8f\<rparr>)) = Some 2959"
proof -
  let ?A = "replicate TOKEN_HASH_SIZE (GLArbToken_zero\<lparr>GLArbToken.Hash := 1\<rparr>)"
  let ?ArbToken = "GLArbToken_zero\<lparr>GLArbToken.Hash := 0xb5c6eb8f\<rparr>"
  have home: "unat ((0xb5c6eb8f :: u32) AND (of_nat TOKEN_HASH_SIZE - 1)) = 2959"
    by (simp add: TOKEN_HASH_SIZE_def)
  have less: "2959 < TOKEN_HASH_SIZE"
    by (simp add: TOKEN_HASH_SIZE_def)
  have fA: "find (\<lambda>i. GLArbToken.Hash (?A ! i) = 0) (probe_order (GLArbToken.Hash ?ArbToken)) = None"
    by (rule find_probe_order_full) simp
  have fE: "find (\<lambda>i. GLArbToken.Hash (calloc_GLArbToken ! i) = 0)
      (probe_order (GLArbToken.Hash ?ArbToken)) = Some 2959"
    using find_probe_order_home [of "\<lambda>i. GLArbToken.Hash (calloc_GLArbToken ! i) = 0" "GLArbToken.Hash ?ArbToken"]
    by (simp add: home less calloc_GLArbToken_nth GLArbToken_zero_def)
  have "AddToken_Arb ?A ?ArbToken = (None, ?A)"
    using AddToken_Arb_eq [of ?A ?ArbToken] unfolding fA by simp
  moreover have "fst (AddToken_Arb calloc_GLArbToken ?ArbToken) = Some 2959"
    using AddToken_Arb_eq [of calloc_GLArbToken ?ArbToken] unfolding fE
    by (simp add: calloc_GLArbToken_length)
  ultimately show ?thesis by simp
qed

section \<open>Order of the sorted result sets\<close>

lemma TokenComparer_le: "TokenComparer a b \<le> 0 \<longleftrightarrow> GLToken.Hash b \<le> GLToken.Hash a"
  by (auto simp add: TokenComparer_def)

lemma qsort_hashes_sorted:
  assumes "qsort_post TokenComparer TokenHash Sorted"
  shows "map GLToken.Hash Sorted = rev (sort (map GLToken.Hash TokenHash))"
proof -
  let ?hs = "map GLToken.Hash Sorted"
  from assms have "sorted_wrt (\<lambda>a b. GLToken.Hash b \<le> GLToken.Hash a) Sorted"
    by (simp add: qsort_post_def TokenComparer_le)
  then have "sorted_wrt (\<lambda>x y. y \<le> x) ?hs"
    by (simp add: sorted_wrt_map)
  then have "sorted (rev ?hs)"
    by (simp add: sorted_wrt_rev)
  moreover from assms have "mset (rev ?hs) = mset (map GLToken.Hash TokenHash)"
    by (simp add: qsort_post_def)
  ultimately have "sort (map GLToken.Hash TokenHash) = rev ?hs"
    by (rule properties_for_sort [rotated])
  then show ?thesis by simp
qed

lemma qsort_populated_first:
  assumes "qsort_post TokenComparer TokenHash Sorted"
    and "i < j" and "j < length Sorted" and "GLToken.Hash (Sorted ! i) = 0"
  shows "GLToken.Hash (Sorted ! j) = 0"
proof -
  from assms(1) have "sorted_wrt (\<lambda>a b. GLToken.Hash b \<le> GLToken.Hash a) Sorted"
    by (simp add: qsort_post_def TokenComparer_le)
  then have "GLToken.Hash (Sorted ! j) \<le> GLToken.Hash (Sorted ! i)"
    using assms(2,3) by (rule sorted_wrt_nth_less)
  with assms(4) show ?thesis by simp
qed


lemma probe_order_covers:
  assumes "i < TOKEN_HASH_SIZE"
  shows "i \<in> set (probe_order h)"
proof -
  let ?I = "h AND (of_nat TOKEN_HASH_SIZE - 1)"
  have I: "unat ?I < TOKEN_HASH_SIZE" by (rule mask_index_less)
  have "slot ?I (i + TOKEN_HASH_SIZE - unat ?I) = (unat ?I + (i + TOKEN_HASH_SIZE - unat ?I)) mod TOKEN_HASH_SIZE"
    by (simp add: slot_def)
  also have "unat ?I + (i + TOKEN_HASH_SIZE - unat ?I) = i + TOKEN_HASH_SIZE"
    using I by simp
  also have "(i + TOKEN_HASH_SIZE) mod TOKEN_HASH_SIZE = i"
    using assms by simp
  finally show ?thesis
    using slot_in_probe_order [of h "i + TOKEN_HASH_SIZE - unat ?I"] by simp
qed

lemma AddToken_length: "length (snd (AddToken TokenHash Token)) = length TokenHash"
  by (simp add: AddToken_def Let_def split: prod.splits)

lemma AddToken_hashes:
  assumes "length TokenHash = TOKEN_HASH_SIZE" and "0 \<in> set (map GLToken.Hash TokenHash)"
  shows "add_mset 0 (mset (map GLToken.Hash (snd (AddToken TokenHash Token)))) =
         add_mset (GLToken.Hash Token) (mset (map GLToken.Hash TokenHash))"
proof -
  let ?P = "\<lambda>i. GLToken.Hash (TokenHash ! i) = 0"
  from assms(2) obtain j where j: "j < length TokenHash" "GLToken.Hash (TokenHash ! j) = 0"
    by (auto simp add: in_set_conv_nth)
  then have "j \<in> set (probe_order (GLToken.Hash Token))"
    using assms(1) probe_order_covers by simp
  with j(2) have "find ?P (probe_order (GLToken.Hash Token)) \<noteq> None"
    unfolding find_None_iff by blast
  then obtain i where i: "find ?P (probe_order (GLToken.Hash Token)) = Some i"
    by blast
  then have "i < length TokenHash" and zero: "GLToken.Hash (TokenHash ! i) = 0"
    using find_SomeD [OF i] set_probe_order assms(1) by auto
  then have "mset (map GLToken.Hash (TokenHash[i := Token])) =
      add_mset (GLToken.Hash Token) (mset (map GLToken.Hash TokenHash) - {#0#})"
    by (simp add: map_update mset_update)
  moreover have "0 \<in># mset (map GLToken.Hash TokenHash)"
    using assms(2) by simp
  ultimately show ?thesis
    using AddToken_eq [OF assms(1), of Token] i by simp
qed

lemma insert_all_length: "length (insert_all Tokens TokenHash) = length TokenHash"
  unfolding insert_all_def
  by (induction Tokens arbitrary: TokenHash) (simp_all add: AddToken_length)

lemma insert_all_hashes:
  assumes "length TokenHash = TOKEN_HASH_SIZE"
    and "length Tokens \<le> count (mset (map GLToken.Hash TokenHash)) 0"
  shows "mset (map GLToken.Hash (insert_all Tokens TokenHash)) + replicate_mset (length Tokens) 0 =
         mset (map GLToken.Hash TokenHash) + mset (map GLToken.Hash Tokens)"
  using assms
proof (induction Tokens arbitrary: TokenHash)
  case Nil
  then show ?case by (simp add: insert_all_def)
next
  case (Cons Token Tokens)
  let ?T = "snd (AddToken TokenHash Token)"
  have mem: "0 \<in> set (map GLToken.Hash TokenHash)"
  proof (rule ccontr)
    assume "0 \<notin> set (map GLToken.Hash TokenHash)"
    then have "count (mset (map GLToken.Hash TokenHash)) 0 = 0"
      by (simp only: count_eq_zero_iff set_mset_mset not_False_eq_True)
    with Cons.prems(2) show False
      by (simp del: mset_map)
  qed
  have step: "add_mset 0 (mset (map GLToken.Hash ?T)) =
      add_mset (GLToken.Hash Token) (mset (map GLToken.Hash TokenHash))"
    using Cons.prems(1) mem by (rule AddToken_hashes)
  then have "count (add_mset 0 (mset (map GLToken.Hash ?T))) 0 =
      count (add_mset (GLToken.Hash Token) (mset (map GLToken.Hash TokenHash))) 0"
    by simp
  then have "count (mset (map GLToken.Hash TokenHash)) 0 \<le> Suc (count (mset (map GLToken.Hash ?T)) 0)"
    by (simp del: mset_map split: if_splits)
  with Cons.prems(2) have room: "length Tokens \<le> count (mset (map GLToken.Hash ?T)) 0"
    by (simp del: mset_map)
  have len: "length ?T = TOKEN_HASH_SIZE"
    using Cons.prems(1) by (simp add: AddToken_length)
  have IH: "mset (map GLToken.Hash (insert_all Tokens ?T)) + replicate_mset (length Tokens) 0 =
      mset (map GLToken.Hash ?T) + mset (map GLToken.Hash Tokens)"
    using len room by (rule Cons.IH)
  have "insert_all (Token # Tokens) TokenHash = insert_all Tokens ?T"
    by (simp add: insert_all_def)
  then have "mset (map GLToken.Hash (insert_all (Token # Tokens) TokenHash)) +
        replicate_mset (length (Token # Tokens)) 0 =
      add_mset 0 (mset (map GLToken.Hash ?T)) + mset (map GLToken.Hash Tokens)"
    using IH by simp
  also have "\<dots> = mset (map GLToken.Hash TokenHash) + mset (map GLToken.Hash (Token # Tokens))"
    unfolding step by simp
  finally show ?case .
qed

lemma insert_all_permutation:
  assumes "mset Tokens = mset Tokens'" and "length Tokens \<le> TOKEN_HASH_SIZE"
  shows "mset (map GLToken.Hash (insert_all Tokens calloc_GLToken)) =
         mset (map GLToken.Hash (insert_all Tokens' calloc_GLToken))"
proof -
  have zeros: "count (mset (map GLToken.Hash calloc_GLToken)) 0 = TOKEN_HASH_SIZE"
    by (simp add: calloc_GLToken_def GLToken_zero_def del: mset_map)
  have len: "length Tokens' = length Tokens"
    using assms(1) by (metis size_mset)
  have "mset (map GLToken.Hash (insert_all Tokens calloc_GLToken)) + replicate_mset (length Tokens) 0 =
      mset (map GLToken.Hash calloc_GLToken) + mset (map GLToken.Hash Tokens)"
    by (rule insert_all_hashes) (simp_all add: calloc_GLToken_length zeros assms(2) del: mset_map)
  moreover have "mset (map GLToken.Hash (insert_all Tokens' calloc_GLToken)) +
        replicate_mset (length Tokens') 0 =
      mset (map GLToken.Hash calloc_GLToken) + mset (map GLToken.Hash Tokens')"
    by (rule insert_all_hashes) (simp_all add: calloc_GLToken_length zeros assms(2) len del: mset_map)
  moreover have "mset (map GLToken.Hash Tokens) = mset (map GLToken.Hash Tokens')"
    using assms(1) by (metis mset_map)
  ultimately show ?thesis
    using len by (metis add_right_cancel)
qed


lemma sorted_wrt_replicate: "P x x \<Longrightarrow> sorted_wrt P (replicate n x)"
  by (induction n) simp_all

section \<open>String comparison and the ignore list\<close>

lemma Equal_loop_prefix:
  "Index \<le> Length Token \<Longrightarrow>
   (Equal_loop Token Val Index = Length Token) =
     prefix (map (char_at (Chars Token)) [Index..<Length Token]) (printf_str Val)"
proof (induction Token Val Index rule: Equal_loop.induct)
  case (1 Token Val Index)
  show ?case
  proof (cases "Index < Length Token")
    case False
    with "1.prems" show ?thesis
      by (subst Equal_loop.simps) simp
  next
    case True
    then have upt: "[Index..<Length Token] = Index # [Index + 1..<Length Token]"
      by (simp add: upt_conv_Cons)
    show ?thesis
    proof (cases Val)
      case Nil
      with True show ?thesis
        by (subst Equal_loop.simps) (simp add: deref_def printf_str_def upt)
    next
      case (Cons v vs)
      show ?thesis
      proof (cases "v = NUL")
        case True
        with \<open>Index < Length Token\<close> Cons show ?thesis
          by (subst Equal_loop.simps) (simp add: deref_def printf_str_def upt)
      next
        case False
        show ?thesis
        proof (cases "v = char_at (Chars Token) Index")
          case True
          have "(Equal_loop Token (tl Val) (Index + 1) = Length Token) =
              prefix (map (char_at (Chars Token)) [Index + 1..<Length Token]) (printf_str (tl Val))"
            using \<open>Index < Length Token\<close> False True Cons
            by (intro "1.IH") (simp_all add: deref_def)
          with \<open>Index < Length Token\<close> False True Cons show ?thesis
            by (subst Equal_loop.simps) (simp add: deref_def printf_str_def upt)
        next
          case differ: False
          with \<open>Index < Length Token\<close> False Cons show ?thesis
            by (subst Equal_loop.simps) (auto simp add: deref_def printf_str_def upt)
        qed
      qed
    qed
  qed
qed

lemma Equal_iff:
  "Equal Token Val \<longleftrightarrow> Length Token \<noteq> 0 \<and> prefix (bytes_of Token) (printf_str Val)"
  using Equal_loop_prefix [of 0 Token Val] by (simp add: Equal_def bytes_of_def)

lemma StartsWith_loop_prefix:
  "Index \<le> Length Token \<Longrightarrow>
   StartsWith_loop Token Pre Index =
     (prefix (map (char_at (Chars Token)) [Index..<Length Token]) (printf_str Pre) \<or>
      prefix (printf_str Pre) (map (char_at (Chars Token)) [Index..<Length Token]))"
proof (induction Token Pre Index rule: StartsWith_loop.induct)
  case (1 Token Pre Index)
  show ?case
  proof (cases "Index < Length Token")
    case False
    with "1.prems" show ?thesis
      by (subst StartsWith_loop.simps) simp
  next
    case True
    then have upt: "[Index..<Length Token] = Index # [Index + 1..<Length Token]"
      by (simp add: upt_conv_Cons)
    show ?thesis
    proof (cases Pre)
      case Nil
      with True show ?thesis
        by (subst StartsWith_loop.simps) (simp add: deref_def printf_str_def upt)
    next
      case (Cons v vs)
      show ?thesis
      proof (cases "v = NUL")
        case True
        with \<open>Index < Length Token\<close> Cons show ?thesis
          by (subst StartsWith_loop.simps) (simp add: deref_def printf_str_def upt)
      next
        case False
        show ?thesis
        proof (cases "v = char_at (Chars Token) Index")
          case True
          have "StartsWith_loop Token (tl Pre) (Index + 1) =
              (prefix (map (char_at (Chars Token)) [Index + 1..<Length Token]) (printf_str (tl Pre)) \<or>
               prefix (printf_str (tl Pre)) (map (char_at (Chars Token)) [Index + 1..<Length Token]))"
            using \<open>Index < Length Token\<close> False True Cons
            by (intro "1.IH") (simp_all add: deref_def)
          with \<open>Index < Length Token\<close> False True Cons show ?thesis
            by (subst StartsWith_loop.simps) (simp add: deref_def printf_str_def upt)
        next
          case differ: False
          with \<open>Index < Length Token\<close> False Cons show ?thesis
            by (subst StartsWith_loop.simps) (auto simp add: deref_def printf_str_def upt)
        qed
      qed
    qed
  qed
qed

lemma StartsWith_iff:
  "StartsWith Token Pre \<longleftrightarrow>
     Length Token \<noteq> 0 \<and>
     (prefix (bytes_of Token) (printf_str Pre) \<or> prefix (printf_str Pre) (bytes_of Token))"
  using StartsWith_loop_prefix [of 0 Token Pre] by (auto simp add: StartsWith_def bytes_of_def)

lemma ignored_loop_iff:
  "ignored_loop Token Ignored \<longleftrightarrow> (\<exists>e \<in> set Ignored. Equal (GLToken.Value Token) e)"
  by (induction Ignored) auto

lemma GetToken_calloc: "GetToken calloc_GLArbToken q = None"
proof -
  let ?P = "\<lambda>i. GLArbToken.Hash (calloc_GLArbToken ! i) = 0 \<or> GLArbToken.Hash (calloc_GLArbToken ! i) = q"
  have "?P (unat (q AND (of_nat TOKEN_HASH_SIZE - 1)))"
    using mask_index_less [of q] by (simp add: calloc_GLArbToken_nth GLArbToken_zero_def)
  then have "find ?P (probe_order q) = Some (unat (q AND (of_nat TOKEN_HASH_SIZE - 1)))"
    by (rule find_probe_order_home)
  then show ?thesis
    using mask_index_less [of q]
    by (simp add: GetToken_eq calloc_GLArbToken_length calloc_GLArbToken_nth GLArbToken_zero_def)
qed

text \<open>
  C1. The claim wants a candidate accepted through the ignore list only when its text is
  equal to a whole entry.  \<^verbatim>\<open>Equal\<close> stops at the end of the token without looking at
  the rest of the entry, so the token \<^verbatim>\<open>glFoo\<close>, scanned from \<^verbatim>\<open>glFoo(1);\<close>, which the
  registry does not know and which is no entry of the ignore list, is accepted without a
  warning because the entry \<^verbatim>\<open>glFooBar\<close> begins with it.
\<close>

theorem ignore_entry_matched_by_prefix:
  "bytes_of (GLToken.Value (fst (ParseToken ''glFoo(1);''))) = ''glFoo'' \<and>
   ''glFoo'' \<notin> set [''glFooBar''] \<and>
   GetToken calloc_GLArbToken (GLToken.Hash (fst (ParseToken ''glFoo(1);''))) = None \<and>
   IsKnownOrIgnoredToken calloc_GLArbToken (fst (ParseToken ''glFoo(1);''))
     \<lparr>Headers = [''gl.h''], Output = ''gl.generated.h'', Prefix = None, Inputs = [''main.c''],
      Ignores = [''glFooBar''], WriteTimestamp = 0, Boilerplate = True, Silent = False,
      ForceGenerate = False\<rparr> = (True, [])"
proof -
  have tok: "GLToken.Value (fst (ParseToken ''glFoo(1);'')) = \<lparr>Chars = ''glFoo(1);'', Length = 5\<rparr>"
    by (simp add: ParseToken_def Let_def NUL_def IsWhitespaceOrNewline_def IsNewline_def
        IsWhitespace_def IsIdentifier_def)
  have bytes: "bytes_of \<lparr>Chars = ''glFoo(1);'', Length = 5\<rparr> = ''glFoo''"
    by (simp add: bytes_of_def char_at_def upt_conv_Cons)
  have "Equal \<lparr>Chars = ''glFoo(1);'', Length = 5\<rparr> ''glFooBar''"
    unfolding Equal_iff bytes by (simp add: printf_str_def NUL_def)
  then show ?thesis
    by (simp add: tok bytes GetToken_calloc IsKnownOrIgnoredToken_def)
qed

section \<open>The concatenated registry buffer\<close>

text \<open>
  C9. The claim wants every registry file's bytes unchanged in the concatenated buffer.
  \<^verbatim>\<open>ReadMultiFiles\<close> writes its two newlines over the terminator of the block read
  so far and over the byte before it, the last byte of the preceding file: of the file
  \<^verbatim>\<open>#define GL_A 1\<close>, without a final newline, the \<^verbatim>\<open>1\<close> is lost.
\<close>

theorem ReadMultiFiles_overwrites_last_byte:
  "ReadMultiFiles (map_of [(''a.h'', ''#define GL_A 1''), (''b.h'', ''#define GL_B 2\<newline>'')])
     [''a.h'', ''b.h''] =
   (Some ''#define GL_A \<newline>\<newline>#define GL_B 2\<newline>'', [])"
  by (simp add: ReadMultiFiles_def)

section \<open>The worked run\<close>

lemma less_TOKEN_HASH_SIZE: "(n < TOKEN_HASH_SIZE) = (n < 8192)"
  by (simp add: TOKEN_HASH_SIZE_def)

lemma home_numeral:
  "unat ((numeral k :: u32) AND (of_nat TOKEN_HASH_SIZE - 1)) = unat (numeral k :: u32) mod 8192"
proof -
  have "unat ((numeral k :: u32) AND (of_nat TOKEN_HASH_SIZE - 1)) =
      unat (numeral k :: u32) mod TOKEN_HASH_SIZE"
    by (rule mask_index_unat)
  then show ?thesis
    by (simp only: TOKEN_HASH_SIZE_def)
qed

lemma GetToken_home_empty:
  assumes "length ArbHash = TOKEN_HASH_SIZE"
    and "GLArbToken.Hash (ArbHash ! unat (q AND (of_nat TOKEN_HASH_SIZE - 1))) = 0"
  shows "GetToken ArbHash q = None"
proof -
  let ?P = "\<lambda>i. GLArbToken.Hash (ArbHash ! i) = 0 \<or> GLArbToken.Hash (ArbHash ! i) = q"
  have "find ?P (probe_order q) = Some (unat (q AND (of_nat TOKEN_HASH_SIZE - 1)))"
    by (rule find_probe_order_home) (simp add: assms(2))
  then show ?thesis
    using assms by (simp add: GetToken_eq)
qed

lemma GetToken_home_hit:
  assumes "length ArbHash = TOKEN_HASH_SIZE" and "q \<noteq> 0"
    and "GLArbToken.Hash (ArbHash ! unat (q AND (of_nat TOKEN_HASH_SIZE - 1))) = q"
  shows "GetToken ArbHash q = Some (unat (q AND (of_nat TOKEN_HASH_SIZE - 1)))"
proof -
  let ?P = "\<lambda>i. GLArbToken.Hash (ArbHash ! i) = 0 \<or> GLArbToken.Hash (ArbHash ! i) = q"
  have "find ?P (probe_order q) = Some (unat (q AND (of_nat TOKEN_HASH_SIZE - 1)))"
    by (rule find_probe_order_home) (simp add: assms(3))
  then show ?thesis
    using assms by (simp add: GetToken_eq)
qed

lemma Contains_home_empty:
  assumes "length TokenHash = TOKEN_HASH_SIZE"
    and "GLToken.Hash (TokenHash ! unat (GLToken.Hash Token AND (of_nat TOKEN_HASH_SIZE - 1))) = 0"
  shows "\<not> Contains TokenHash Token"
proof -
  let ?P = "\<lambda>i. GLToken.Hash (TokenHash ! i) = 0 \<or> GLToken.Hash (TokenHash ! i) = GLToken.Hash Token"
  have "find ?P (probe_order (GLToken.Hash Token)) =
      Some (unat (GLToken.Hash Token AND (of_nat TOKEN_HASH_SIZE - 1)))"
    by (rule find_probe_order_home) (simp add: assms(2))
  then show ?thesis
    using assms by (simp add: Contains_eq)
qed

lemma Contains_home_hit:
  assumes "length TokenHash = TOKEN_HASH_SIZE" and "GLToken.Hash Token \<noteq> 0"
    and "GLToken.Hash (TokenHash ! unat (GLToken.Hash Token AND (of_nat TOKEN_HASH_SIZE - 1))) =
         GLToken.Hash Token"
  shows "Contains TokenHash Token"
proof -
  let ?P = "\<lambda>i. GLToken.Hash (TokenHash ! i) = 0 \<or> GLToken.Hash (TokenHash ! i) = GLToken.Hash Token"
  have "find ?P (probe_order (GLToken.Hash Token)) =
      Some (unat (GLToken.Hash Token AND (of_nat TOKEN_HASH_SIZE - 1)))"
    by (rule find_probe_order_home) (simp add: assms(3))
  then show ?thesis
    using assms by (simp add: Contains_eq)
qed

lemma AddToken_home:
  assumes "length TokenHash = TOKEN_HASH_SIZE"
    and "GLToken.Hash (TokenHash ! unat (GLToken.Hash Token AND (of_nat TOKEN_HASH_SIZE - 1))) = 0"
  shows "AddToken TokenHash Token =
           (0, TokenHash[unat (GLToken.Hash Token AND (of_nat TOKEN_HASH_SIZE - 1)) := Token])"
proof -
  have "find (\<lambda>i. GLToken.Hash (TokenHash ! i) = 0) (probe_order (GLToken.Hash Token)) =
      Some (unat (GLToken.Hash Token AND (of_nat TOKEN_HASH_SIZE - 1)))"
    by (rule find_probe_order_home) (rule assms(2))
  then show ?thesis
    using assms(1) by (simp add: AddToken_eq)
qed

lemma AddToken_Arb_home:
  assumes "length ArbHash = TOKEN_HASH_SIZE"
    and "GLArbToken.Hash (ArbHash ! unat (GLArbToken.Hash Token AND (of_nat TOKEN_HASH_SIZE - 1))) = 0"
  shows "AddToken_Arb ArbHash Token =
           (Some (unat (GLArbToken.Hash Token AND (of_nat TOKEN_HASH_SIZE - 1))),
            ArbHash[unat (GLArbToken.Hash Token AND (of_nat TOKEN_HASH_SIZE - 1)) := Token])"
proof -
  have "find (\<lambda>i. GLArbToken.Hash (ArbHash ! i) = 0) (probe_order (GLArbToken.Hash Token)) =
      Some (unat (GLArbToken.Hash Token AND (of_nat TOKEN_HASH_SIZE - 1)))"
    by (rule find_probe_order_home) (rule assms(2))
  then show ?thesis
    using assms(1) by (simp add: AddToken_Arb_eq)
qed

lemmas scan_simps =
  ParseArbToken_def ParseToken_def Let_def NUL_def deref_def IsWhitespaceOrNewline_def
  IsNewline_def IsWhitespace_def IsIdentifier_def IsUpperCase_def bytes_of_def char_at_def
  printf_str_def printf_slice_def Equal_iff StartsWith_iff index_opt_def strlen_def
  GLString_zero_def GLArbToken_zero_def GLToken_zero_def upt_conv_Cons

lemmas table_simps =
  calloc_GLToken_length calloc_GLToken_nth calloc_GLArbToken_length calloc_GLArbToken_nth
  less_TOKEN_HASH_SIZE home_numeral

lemma example_parse1:
  "ParseArbToken example_registry =
     (GLArbToken_zero\<lparr>GLArbToken.Value := \<lparr>Chars = example_registry, Length = 7\<rparr>\<rparr>,
      drop 7 example_registry)"
  by (simp add: example_registry_def scan_simps)

lemma example_parse2:
  "ParseArbToken (drop 7 example_registry) =
     (GLArbToken_zero\<lparr>GLArbToken.Value := \<lparr>Chars = drop 8 example_registry, Length = 16\<rparr>\<rparr>,
      drop 24 example_registry)"
  by (simp add: example_registry_def scan_simps)

lemma example_eol1: "AdvanceToEndOfLine (drop 24 example_registry) = drop 31 example_registry"
  by (simp add: example_registry_def scan_simps)

lemma example_hash_major:
  "GetStringHash \<lparr>Chars = drop 8 example_registry, Length = 16\<rparr> = 0x550f607b"
  by (simp add: example_registry_def GetStringHash_def GetStringHash_loop.simps char_at_def)

lemma example_tests1:
  "\<not> Equal \<lparr>Chars = example_registry, Length = 7\<rparr> ''GLAPI''"
  "StartsWith \<lparr>Chars = example_registry, Length = 7\<rparr> ''#define''"
  by (simp_all add: example_registry_def scan_simps)

lemma example_step1:
  "registry_step example_registry calloc_GLArbToken 0 =
     Inr (drop 31 example_registry,
          calloc_GLArbToken
            [123 := \<lparr>GLArbToken.Value = \<lparr>Chars = drop 8 example_registry, Length = 16\<rparr>,
                     Line = \<lparr>Chars = example_registry, Length = 31\<rparr>,
                     ReturnType = GLString_zero, FunctionName = GLString_zero,
                     Parameters = GLString_zero, GLArbToken.Hash = 0x550f607b\<rparr>], 1)"
proof -
  have len: "length example_registry = 79"
    by (simp add: example_registry_def)
  show ?thesis
    unfolding registry_step_def registry_define_def
    by (simp add: example_parse1 example_parse2 example_eol1 example_hash_major example_tests1
        GetToken_calloc AddToken_Arb_home table_simps GLArbToken_zero_def len)
qed

lemma example_length: "length example_registry = 79"
  by (simp add: example_registry_def)

lemma example_parse3:
  "ParseArbToken (drop 31 example_registry) =
     (GLArbToken_zero\<lparr>GLArbToken.Value := \<lparr>Chars = drop 32 example_registry, Length = 5\<rparr>\<rparr>,
      drop 37 example_registry)"
  by (simp add: example_registry_def scan_simps)

lemma example_parse4:
  "ParseArbToken (drop 37 example_registry) =
     (GLArbToken_zero\<lparr>GLArbToken.Value := \<lparr>Chars = drop 38 example_registry, Length = 4\<rparr>\<rparr>,
      drop 42 example_registry)"
  by (simp add: example_registry_def scan_simps)

lemma example_parse5:
  "ParseArbToken (drop 42 example_registry) =
     (GLArbToken_zero\<lparr>GLArbToken.Value := \<lparr>Chars = drop 43 example_registry, Length = 8\<rparr>\<rparr>,
      drop 51 example_registry)"
  by (simp add: example_registry_def scan_simps)

lemma example_parse6:
  "ParseArbToken (drop 51 example_registry) =
     (GLArbToken_zero\<lparr>GLArbToken.Value := \<lparr>Chars = drop 52 example_registry, Length = 7\<rparr>\<rparr>,
      drop 59 example_registry)"
  by (simp add: example_registry_def scan_simps)

lemma example_parse7:
  "ParseArbToken (drop 78 example_registry) =
     (GLArbToken_zero\<lparr>GLArbToken.Value := \<lparr>Chars = [], Length = 0\<rparr>\<rparr>, [])"
  by (simp add: example_registry_def scan_simps)

lemma example_eol2: "AdvanceToEndOfLine (drop 59 example_registry) = drop 78 example_registry"
  by (simp add: example_registry_def scan_simps)

lemma example_hash_clear:
  "GetStringHash \<lparr>Chars = drop 52 example_registry, Length = 7\<rparr> = 0xb5c6eb8f"
  by (simp add: example_registry_def GetStringHash_def GetStringHash_loop.simps char_at_def)

lemma example_tests2:
  "Equal \<lparr>Chars = drop 32 example_registry, Length = 5\<rparr> ''GLAPI''"
  "\<not> Equal \<lparr>Chars = drop 38 example_registry, Length = 4\<rparr> ''const''"
  "\<not> Equal \<lparr>Chars = [], Length = 0\<rparr> ''GLAPI''"
  "\<not> StartsWith \<lparr>Chars = [], Length = 0\<rparr> ''#define''"
  by (simp_all add: example_registry_def scan_simps)

lemma example_live:
  "deref example_registry \<noteq> NUL"
  "deref (drop 31 example_registry) \<noteq> NUL"
  "deref (drop 78 example_registry) \<noteq> NUL"
  by (simp_all add: example_registry_def deref_def NUL_def)

lemma example_step2:
  "registry_step (drop 31 example_registry) example_after1 1 =
     Inr (drop 78 example_registry, example_ArbHash, 2)"
  unfolding registry_step_def registry_GLAPI_def example_after1_def example_ArbHash_def
  by (simp add: example_parse3 example_parse4 example_parse5 example_parse6 example_eol2
      example_hash_clear example_tests2 GetToken_home_empty AddToken_Arb_home table_simps
      GLArbToken_zero_def example_length)

lemma example_step3:
  "registry_step (drop 78 example_registry) example_ArbHash 2 = Inr ([], example_ArbHash, 2)"
  unfolding registry_step_def
  by (simp add: example_parse7 example_tests2 GLArbToken_zero_def)

lemma example_parse_registry:
  "parse_registry example_registry calloc_GLArbToken 0 = Inr (example_ArbHash, 2)"
proof -
  have "parse_registry [] example_ArbHash 2 = Inr (example_ArbHash, 2)"
    by (subst parse_registry.simps) (simp add: deref_def)
  then have "parse_registry (drop 78 example_registry) example_ArbHash 2 = Inr (example_ArbHash, 2)"
    by (subst parse_registry.simps) (simp add: example_live example_step3)
  then have "parse_registry (drop 31 example_registry) example_after1 1 = Inr (example_ArbHash, 2)"
    by (subst parse_registry.simps) (simp add: example_live example_step2 del: One_nat_def)
  then show ?thesis
    by (subst parse_registry.simps)
      (simp add: example_live example_step1 example_after1_def [symmetric] del: One_nat_def)
qed

lemma seed_hashes:
  "GetStringHash \<lparr>Chars = ''GL_MAJOR_VERSION'', Length = strlen ''GL_MAJOR_VERSION''\<rparr> = 0x550f607b"
  "GetStringHash \<lparr>Chars = ''GL_MINOR_VERSION'', Length = strlen ''GL_MINOR_VERSION''\<rparr> = 0xfb08e2e7"
  "GetStringHash \<lparr>Chars = ''glGetIntegerv'', Length = strlen ''glGetIntegerv''\<rparr> = 0xfe4ab190"
  by (simp_all add: strlen_def NUL_def GetStringHash_def GetStringHash_loop.simps char_at_def)

lemma seeded_state_eq:
  "seeded_state g printed =
     \<lparr>FunctionsHash = calloc_GLToken[4496 := seed_token (g ''glGetIntegerv'') 0xfe4ab190],
      FunctionCount = 1,
      DefinesHash =
        calloc_GLToken[123 := seed_token (g ''GL_MAJOR_VERSION'') 0x550f607b,
                       743 := seed_token (g ''GL_MINOR_VERSION'') 0xfb08e2e7],
      DefinesCount = 2,
      Stderr = printed\<rparr>"
  by (simp add: seeded_state_def AddCustomToken_def seed_hashes AddToken_home table_simps
      GLToken_zero_def seed_token_def del: One_nat_def)

lemma example_tokens:
  "ParseToken example_source =
     (\<lparr>GLToken.Value = \<lparr>Chars = example_source, Length = 7\<rparr>, GLToken.Hash = 0xb5c6eb8f\<rparr>,
      drop 7 example_source)"
  "ParseToken (drop 7 example_source) =
     (\<lparr>GLToken.Value = \<lparr>Chars = drop 8 example_source, Length = 1\<rparr>, GLToken.Hash = 0x010001A2\<rparr>,
      drop 9 example_source)"
  "ParseToken (drop 9 example_source) =
     (\<lparr>GLToken.Value = \<lparr>Chars = [], Length = 0\<rparr>, GLToken.Hash = 1\<rparr>, [])"
  by (simp_all add: example_source_def scan_simps GetStringHash_def GetStringHash_loop.simps)

lemma example_ArbHash_length: "length example_ArbHash = TOKEN_HASH_SIZE"
  by (simp add: example_ArbHash_def table_simps)

lemma example_lookup:
  "GetToken example_ArbHash 0xb5c6eb8f = Some 2959"
  "GetToken example_ArbHash 0x550f607b = Some 123"
  "GetToken example_ArbHash 0xfe4ab190 = None"
  "GetToken example_ArbHash 0xfb08e2e7 = None"
proof -
  show "GetToken example_ArbHash 0xb5c6eb8f = Some 2959"
    using GetToken_home_hit [of example_ArbHash "0xb5c6eb8f"]
    by (simp add: example_ArbHash_length) (simp add: example_ArbHash_def table_simps)
  show "GetToken example_ArbHash 0x550f607b = Some 123"
    using GetToken_home_hit [of example_ArbHash "0x550f607b"]
    by (simp add: example_ArbHash_length) (simp add: example_ArbHash_def table_simps)
  show "GetToken example_ArbHash 0xfe4ab190 = None"
    by (rule GetToken_home_empty)
      (simp_all add: example_ArbHash_def table_simps GLArbToken_zero_def)
  show "GetToken example_ArbHash 0xfb08e2e7 = None"
    by (rule GetToken_home_empty)
      (simp_all add: example_ArbHash_def table_simps GLArbToken_zero_def)
qed

lemma example_token1:
  "ParseFile_token example_ArbHash (example_settings b ts)
     \<lparr>GLToken.Value = \<lparr>Chars = example_source, Length = 7\<rparr>, GLToken.Hash = 0xb5c6eb8f\<rparr>
     (seeded_state g []) = Inr (example_scanned g)"
proof -
  have cand: "is_function_candidate
      \<lparr>GLToken.Value = \<lparr>Chars = example_source, Length = 7\<rparr>, GLToken.Hash = 0xb5c6eb8f\<rparr> = Inr True"
    by (simp add: is_function_candidate_def example_source_def scan_simps)
  have nodef: "\<not> StartsWith \<lparr>Chars = example_source, Length = 7\<rparr> ''GL_''"
    by (simp add: example_source_def scan_simps)
  have fresh: "\<not> Contains (calloc_GLToken[4496 := seed_token (g ''glGetIntegerv'') 0xfe4ab190])
      \<lparr>GLToken.Value = \<lparr>Chars = example_source, Length = 7\<rparr>, GLToken.Hash = 0xb5c6eb8f\<rparr>"
    by (rule Contains_home_empty) (simp_all add: table_simps GLToken_zero_def)
  show ?thesis
    by (simp add: ParseFile_token_def cand nodef record_function_def seeded_state_eq fresh
        IsKnownOrIgnoredToken_def example_lookup AddToken_home table_simps GLToken_zero_def
        example_scanned_def del: One_nat_def)
qed

lemma example_token_other:
  "ParseFile_token example_ArbHash (example_settings b ts)
     \<lparr>GLToken.Value = \<lparr>Chars = drop 8 example_source, Length = 1\<rparr>, GLToken.Hash = 0x010001A2\<rparr>
     st = Inr st"
  "ParseFile_token example_ArbHash (example_settings b ts)
     \<lparr>GLToken.Value = \<lparr>Chars = [], Length = 0\<rparr>, GLToken.Hash = 1\<rparr> st = Inr st"
  by (simp_all add: ParseFile_token_def is_function_candidate_def example_source_def scan_simps)

lemma example_source_live:
  "deref example_source \<noteq> NUL"
  "deref (drop 7 example_source) \<noteq> NUL"
  "deref (drop 9 example_source) \<noteq> NUL"
  by (simp_all add: example_source_def deref_def NUL_def)

lemma example_ParseFiles:
  assumes "fs ''main.c'' = Some example_source"
  shows "ParseFiles fs [''main.c''] example_ArbHash (example_settings b ts) (seeded_state g []) =
     Inr (example_scanned g)"
proof -
  let ?S = "example_settings b ts"
  have "ParseFile_loop example_ArbHash ?S [] (example_scanned g) = Inr (example_scanned g)"
    by (subst ParseFile_loop.simps) (simp add: deref_def)
  then have "ParseFile_loop example_ArbHash ?S (drop 9 example_source) (example_scanned g) =
      Inr (example_scanned g)"
    by (subst ParseFile_loop.simps)
      (simp add: example_source_live example_tokens example_token_other del: One_nat_def)
  then have "ParseFile_loop example_ArbHash ?S (drop 7 example_source) (example_scanned g) =
      Inr (example_scanned g)"
    by (subst ParseFile_loop.simps)
      (simp add: example_source_live example_tokens example_token_other del: One_nat_def)
  then have "ParseFile_loop example_ArbHash ?S example_source (seeded_state g []) =
      Inr (example_scanned g)"
    by (subst ParseFile_loop.simps)
      (simp add: example_source_live example_tokens example_token1 del: One_nat_def)
  moreover have "ReadEntireFile fs ''main.c'' = (Some example_source, [])"
    by (simp add: ReadEntireFile_def assms example_source_def)
  moreover have "seeded_state g [] \<lparr>Stderr := Stderr (seeded_state g []) @ []\<rparr> = seeded_state g []"
    by (simp add: seeded_state_def)
  ultimately show ?thesis
    by (simp add: ParseFile_def bind_fault_def)
qed

lemma two_populated_mset:
  assumes "i < TOKEN_HASH_SIZE" and "j < TOKEN_HASH_SIZE" and "i \<noteq> j"
  shows "mset (calloc_GLToken[i := a, j := b]) =
         add_mset a (add_mset b (replicate_mset (TOKEN_HASH_SIZE - 2) GLToken_zero))"
proof -
  obtain n where n: "TOKEN_HASH_SIZE = Suc (Suc n)"
    by (simp add: TOKEN_HASH_SIZE_def)
  have zeros: "mset calloc_GLToken =
      add_mset GLToken_zero (add_mset GLToken_zero (replicate_mset n GLToken_zero))"
    by (simp add: calloc_GLToken_def n)
  have "mset (calloc_GLToken[i := a, j := b]) =
      add_mset b (add_mset a (mset calloc_GLToken - {#GLToken_zero#}) - {#GLToken_zero#})"
    using assms by (simp add: mset_update calloc_GLToken_length calloc_GLToken_nth)
  then show ?thesis
    unfolding zeros by (simp add: n)
qed

lemma sorted_two_populated:
  assumes "qsort_post TokenComparer T S"
    and "mset T = add_mset a (add_mset b (replicate_mset n GLToken_zero))"
    and "GLToken.Hash b \<le> GLToken.Hash a"
  shows "map GLToken.Hash S = GLToken.Hash a # GLToken.Hash b # replicate n 0"
proof -
  let ?hs = "GLToken.Hash a # GLToken.Hash b # replicate n 0"
  have "mset (map GLToken.Hash T) = mset ?hs"
    using assms(2) by (simp add: GLToken_zero_def)
  then have "mset (rev ?hs) = mset (map GLToken.Hash T)"
    by simp
  moreover have "sorted (rev ?hs)"
    using assms(3) by (simp add: sorted_append)
  ultimately have "sort (map GLToken.Hash T) = rev ?hs"
    by (rule properties_for_sort)
  then show ?thesis
    using qsort_hashes_sorted [OF assms(1)] by simp
qed

lemma emit_loop_step:
  "Index < Count \<Longrightarrow> Index < length T \<Longrightarrow>
   emit_loop body T Count Index =
     bind_fault (body (T ! Index)) (\<lambda>written.
     bind_fault (emit_loop body T Count (Suc Index)) (\<lambda>rest. Inr (written @ rest)))"
  by (subst emit_loop.simps) simp

lemma emit_loop_done: "\<not> Index < Count \<Longrightarrow> emit_loop body T Count Index = Inr []"
  by (subst emit_loop.simps) simp

lemma emit_loop_two:
  assumes "2 \<le> length T"
  shows "emit_loop body T 2 0 =
         bind_fault (body (T ! 0)) (\<lambda>w0. bind_fault (body (T ! Suc 0)) (\<lambda>w1. Inr (w0 @ w1)))"
proof -
  have "emit_loop body T 2 (Suc (Suc 0)) = Inr []"
    by (rule emit_loop_done) simp
  moreover have "emit_loop body T 2 (Suc 0) =
      bind_fault (body (T ! Suc 0)) (\<lambda>written.
      bind_fault (emit_loop body T 2 (Suc (Suc 0))) (\<lambda>rest. Inr (written @ rest)))"
    using assms by (intro emit_loop_step) simp_all
  moreover have "emit_loop body T 2 0 =
      bind_fault (body (T ! 0)) (\<lambda>written.
      bind_fault (emit_loop body T 2 (Suc 0)) (\<lambda>rest. Inr (written @ rest)))"
    using assms by (intro emit_loop_step) auto
  ultimately show ?thesis
    by (simp add: bind_fault_def split: sum.splits)
qed

lemma example_sorted:
  assumes "qsort_contract sorter"
  shows "map GLToken.Hash (sorter TokenComparer (FunctionsHash (example_scanned g))) =
           0xfe4ab190 # 0xb5c6eb8f # replicate (TOKEN_HASH_SIZE - 2) 0"
    and "map GLToken.Hash (sorter TokenComparer (DefinesHash (example_scanned g))) =
           0xfb08e2e7 # 0x550f607b # replicate (TOKEN_HASH_SIZE - 2) 0"
proof -
  let ?clear = "\<lparr>GLToken.Value = \<lparr>Chars = example_source, Length = 7\<rparr>, GLToken.Hash = 0xb5c6eb8f\<rparr>"
  have F: "mset (FunctionsHash (example_scanned g)) =
      add_mset (seed_token (g ''glGetIntegerv'') 0xfe4ab190) (add_mset ?clear
        (replicate_mset (TOKEN_HASH_SIZE - 2) GLToken_zero))"
    unfolding example_scanned_def
    by (simp add: two_populated_mset less_TOKEN_HASH_SIZE)
  have D: "mset (DefinesHash (example_scanned g)) =
      add_mset (seed_token (g ''GL_MINOR_VERSION'') 0xfb08e2e7) (add_mset (seed_token (g ''GL_MAJOR_VERSION'') 0x550f607b)
        (replicate_mset (TOKEN_HASH_SIZE - 2) GLToken_zero))"
    unfolding example_scanned_def
    by (simp add: two_populated_mset less_TOKEN_HASH_SIZE)
  from assms have post: "qsort_post TokenComparer xs (sorter TokenComparer xs)" for xs
    by (simp add: qsort_contract_def)
  show "map GLToken.Hash (sorter TokenComparer (FunctionsHash (example_scanned g))) =
      0xfe4ab190 # 0xb5c6eb8f # replicate (TOKEN_HASH_SIZE - 2) 0"
    using sorted_two_populated [OF post F] by (simp add: seed_token_def)
  show "map GLToken.Hash (sorter TokenComparer (DefinesHash (example_scanned g))) =
      0xfb08e2e7 # 0x550f607b # replicate (TOKEN_HASH_SIZE - 2) 0"
    using sorted_two_populated [OF post D] by (simp add: seed_token_def)
qed

lemma example_entries:
  "example_ArbHash ! 123 =
     \<lparr>GLArbToken.Value = \<lparr>Chars = drop 8 example_registry, Length = 16\<rparr>,
      Line = \<lparr>Chars = example_registry, Length = 31\<rparr>,
      ReturnType = GLString_zero, FunctionName = GLString_zero,
      Parameters = GLString_zero, GLArbToken.Hash = 0x550f607b\<rparr>"
  "example_ArbHash ! 2959 =
     \<lparr>GLArbToken.Value = \<lparr>Chars = drop 52 example_registry, Length = 7\<rparr>,
      Line = \<lparr>Chars = drop 32 example_registry, Length = 46\<rparr>,
      ReturnType = \<lparr>Chars = drop 37 example_registry, Length = 5\<rparr>,
      FunctionName = \<lparr>Chars = drop 52 example_registry, Length = 7\<rparr>,
      Parameters = \<lparr>Chars = drop 59 example_registry, Length = 19\<rparr>,
      GLArbToken.Hash = 0xb5c6eb8f\<rparr>"
  by (simp_all add: example_ArbHash_def table_simps)

lemma example_slices:
  "bytes_of \<lparr>Chars = example_registry, Length = 32\<rparr> = ''#define GL_MAJOR_VERSION 0x821B\<newline>''"
  "printf_slice \<lparr>Chars = drop 37 example_registry, Length = 5\<rparr> = '' void''"
  "printf_slice \<lparr>Chars = drop 52 example_registry, Length = 7\<rparr> = ''glClear''"
  "printf_slice \<lparr>Chars = drop 59 example_registry, Length = 19\<rparr> = '' (GLbitfield mask);''"
  by (simp_all add: example_registry_def scan_simps)

lemma example_upper:
  "printf_str (UpperCase \<lparr>Chars = drop 52 example_registry, Length = 7\<rparr>) = ''GLCLEAR''"
  by code_simp

lemma example_define_lines:
  "GLToken.Hash t = 0xfb08e2e7 \<Longrightarrow> define_body example_ArbHash t = Inr []"
  "GLToken.Hash t = 0x550f607b \<Longrightarrow>
   define_body example_ArbHash t = Inr ''#define GL_MAJOR_VERSION 0x821B\<newline>''"
  by (simp_all add: define_body_def example_lookup example_entries example_slices)

lemma example_function_lines:
  "GLToken.Hash t = 0xfe4ab190 \<Longrightarrow> typedef_body example_ArbHash t = Inr []"
  "GLToken.Hash t = 0xfe4ab190 \<Longrightarrow> redefine_body example_ArbHash t = Inr []"
  "GLToken.Hash t = 0xfe4ab190 \<Longrightarrow> global_body example_ArbHash t = Inr []"
  "GLToken.Hash t = 0xfe4ab190 \<Longrightarrow> load_body [] example_ArbHash t = Inr []"
  "GLToken.Hash t = 0xb5c6eb8f \<Longrightarrow>
   typedef_body example_ArbHash t =
     Inr ''typedef  void (APIENTRYP PFNGLCLEARPROC)  (GLbitfield mask);\<newline>''"
  "GLToken.Hash t = 0xb5c6eb8f \<Longrightarrow>
   redefine_body example_ArbHash t = Inr ''#define glClear GEN_glClear\<newline>''"
  "GLToken.Hash t = 0xb5c6eb8f \<Longrightarrow>
   global_body example_ArbHash t = Inr ''PFNGLCLEARPROC GEN_glClear;\<newline>''"
  "GLToken.Hash t = 0xb5c6eb8f \<Longrightarrow>
   load_body [] example_ArbHash t =
     Inr ''  GEN_glClear = (PFNGLCLEARPROC)OpenGLGetProc(\"glClear\");\<newline>''"
  by (simp_all add: typedef_body_def redefine_body_def global_body_def load_body_def
      example_lookup example_entries example_slices example_upper sprintf_512_def ProcPrefix_def)

lemma example_fields:
  "Headers (example_settings b ts) = [''gl.h'']"
  "Output (example_settings b ts) = ''gl.generated.h''"
  "Prefix (example_settings b ts) = None"
  "Inputs (example_settings b ts) = [''main.c'']"
  "Ignores (example_settings b ts) = []"
  "WriteTimestamp (example_settings b ts) = ts"
  "Boilerplate (example_settings b ts) = b"
  "Silent (example_settings b ts) = False"
  "ForceGenerate (example_settings b ts) = True"
  by (simp_all add: example_settings_def)

lemma example_emit:
  assumes "qsort_contract sorter"
  shows "emit_header (example_settings b ts) example_ArbHash
           (sorter TokenComparer (FunctionsHash (example_scanned g))) 2
           (sorter TokenComparer (DefinesHash (example_scanned g))) 2 =
         Inr (example_output b ts)"
proof -
  let ?F = "sorter TokenComparer (FunctionsHash (example_scanned g))"
  let ?D = "sorter TokenComparer (DefinesHash (example_scanned g))"
  note hs = example_sorted [OF assms, of g]
  have two: "2 \<le> TOKEN_HASH_SIZE"
    by (simp add: TOKEN_HASH_SIZE_def)
  have lenF: "length ?F = TOKEN_HASH_SIZE"
    using arg_cong [OF hs(1), of length] two by simp
  have lenD: "length ?D = TOKEN_HASH_SIZE"
    using arg_cong [OF hs(2), of length] two by simp
  have F0: "GLToken.Hash (?F ! 0) = 0xfe4ab190" and F1: "GLToken.Hash (?F ! Suc 0) = 0xb5c6eb8f"
    using arg_cong [OF hs(1), of "\<lambda>xs. xs ! 0"] arg_cong [OF hs(1), of "\<lambda>xs. xs ! Suc 0"]
      lenF two by simp_all
  have D0: "GLToken.Hash (?D ! 0) = 0xfb08e2e7" and D1: "GLToken.Hash (?D ! Suc 0) = 0x550f607b"
    using arg_cong [OF hs(2), of "\<lambda>xs. xs ! 0"] arg_cong [OF hs(2), of "\<lambda>xs. xs ! Suc 0"]
      lenD two by simp_all
  have dlines: "emit_loop (define_body example_ArbHash) ?D 2 0 =
      Inr ''#define GL_MAJOR_VERSION 0x821B\<newline>''"
    using lenD two
    by (simp add: emit_loop_two example_define_lines D0 D1 bind_fault_def)
  have typedefs: "emit_loop (typedef_body example_ArbHash) ?F 2 0 =
      Inr ''typedef  void (APIENTRYP PFNGLCLEARPROC)  (GLbitfield mask);\<newline>''"
    using lenF two
    by (simp add: emit_loop_two example_function_lines F0 F1 bind_fault_def)
  have redefines: "emit_loop (redefine_body example_ArbHash) ?F 2 0 =
      Inr ''#define glClear GEN_glClear\<newline>''"
    using lenF two
    by (simp add: emit_loop_two example_function_lines F0 F1 bind_fault_def)
  have globals: "emit_loop (global_body example_ArbHash) ?F 2 0 =
      Inr ''PFNGLCLEARPROC GEN_glClear;\<newline>''"
    using lenF two
    by (simp add: emit_loop_two example_function_lines F0 F1 bind_fault_def)
  have loads: "emit_loop (load_body [] example_ArbHash) ?F 2 0 =
      Inr ''  GEN_glClear = (PFNGLCLEARPROC)OpenGLGetProc(\"glClear\");\<newline>''"
    using lenF two
    by (simp add: emit_loop_two example_function_lines F0 F1 bind_fault_def)
  show ?thesis
    unfolding emit_header_def emit_boilerplate_def example_output_def
    by (simp add: example_fields dlines typedefs redefines globals loads bind_fault_def)
qed

lemma example_run:
  assumes "qsort_contract (qsort w)" and "files w = example_files"
    and "writable w ''gl.generated.h''"
  shows "GenerateOpenGLHeader w (example_settings b ts) =
         Inr \<lparr>Success = 0, Written = Some (example_output b ts), Errors = [],
              Printed = [completed_message 2 2 2]\<rparr>"
proof -
  have read: "ReadMultiFiles example_files [''gl.h''] = (Some example_registry, [])"
    by (simp add: ReadMultiFiles_def example_files_def example_registry_def)
  have counts: "FunctionCount (example_scanned g) = 2" "DefinesCount (example_scanned g) = 2"
      "Stderr (example_scanned g) = []" for g
    by (simp_all add: example_scanned_def)
  have source: "((files w)(''gl.generated.h'' \<mapsto> [])) ''main.c'' = Some example_source"
    by (simp add: assms(2) example_files_def)
  note scanned = example_ParseFiles [of "(files w)(''gl.generated.h'' \<mapsto> [])", OF source]
  have "generate w (example_settings b ts) example_registry [] =
      Inr \<lparr>Success = 0, Written = Some (example_output b ts), Errors = [],
           Printed = [completed_message 2 2 2]\<rparr>"
    unfolding generate_def
    by (simp add: example_parse_registry bind_fault_def example_fields
        scanned counts example_emit [OF assms(1)]
        del: ParseFiles.simps fun_upd_apply)
  then show ?thesis
    using assms(2,3) by (simp add: GenerateOpenGLHeader_def read example_fields)
qed


section \<open>Runs of the generator\<close>

lemma mset_insert_by: "mset (insert_by compar x xs) = add_mset x (mset xs)"
  by (induction xs) simp_all

lemma set_insert_by: "set (insert_by compar x xs) = insert x (set xs)"
  by (induction xs) auto

lemma sorted_insert_by:
  "sorted_wrt (\<lambda>a b. TokenComparer a b \<le> 0) xs \<Longrightarrow>
   sorted_wrt (\<lambda>a b. TokenComparer a b \<le> 0) (insert_by TokenComparer x xs)"
  by (induction xs) (auto simp add: set_insert_by TokenComparer_le)

lemma sort_by_contract: "qsort_contract sort_by"
proof -
  have "mset (sort_by compar xs) = mset xs" for compar and xs :: "GLToken list"
    unfolding sort_by_def by (induction xs) (simp_all add: mset_insert_by)
  moreover have "sorted_wrt (\<lambda>a b. TokenComparer a b \<le> 0) (sort_by TokenComparer xs)" for xs
    unfolding sort_by_def by (induction xs) (simp_all add: sorted_insert_by)
  ultimately show ?thesis
    by (simp add: qsort_contract_def qsort_post_def)
qed

lemma example_world_run:
  "GenerateOpenGLHeader (example_world stamp) (example_settings b ts) =
     Inr \<lparr>Success = 0, Written = Some (example_output b ts), Errors = [],
          Printed = [completed_message 2 2 2]\<rparr>"
  by (rule example_run) (simp_all add: example_world_def sort_by_contract)

lemma Generated_guard_begins:
  "prefix (''#ifndef INCLUDE_OPENGL_GENERATED_H\<newline>'' @
           ''#define INCLUDE_OPENGL_GENERATED_H\<newline>'') (Generated_guard ts @ rest)"
  by (simp add: Generated_guard_def)

lemma Generated_init_tail_ends:
  "suffix ''#endif // INCLUDE_OPENGL_GENERATED_H\<newline>'' (Generated_init_tail P)"
  unfolding Generated_init_tail_def by (intro suffix_appendI suffix_order.refl)

lemma GenerateOpenGLHeader_generated:
  assumes "GenerateOpenGLHeader w Settings = Inr r" and "Success r = 0"
    and "ReadMultiFiles (files w) (Headers Settings) = (Some Data, printed)"
  shows "generate w Settings Data printed = Inr r"
  using assms unfolding GenerateOpenGLHeader_def Let_def
  by (auto split: if_splits)

lemma generate_emitted:
  assumes "parse_registry Data calloc_GLArbToken 0 = Inr (ArbHash, ArbTokenCount)"
    and "ParseFiles ((files w)(Output Settings \<mapsto> [])) (Inputs Settings) ArbHash Settings
           (seeded_state (uninit w) printed) = Inr st"
    and "generate w Settings Data printed = Inr r"
  shows "\<exists>out. emit_header Settings ArbHash
                 (qsort w TokenComparer (FunctionsHash st)) (FunctionCount st)
                 (qsort w TokenComparer (DefinesHash st)) (DefinesCount st) = Inr out \<and>
               Written r = Some out \<and> Errors r = Stderr st"
  using assms unfolding generate_def bind_fault_def
  by (auto split: sum.splits)

lemma emit_header_parts:
  assumes "emit_header Settings ArbHash Functions NFunctions Defines NDefines = Inr out"
  shows "\<exists>dlines typedefs boilerplate.
           emit_loop (define_body ArbHash) Defines NDefines 0 = Inr dlines \<and>
           emit_loop (typedef_body ArbHash) Functions NFunctions 0 = Inr typedefs \<and>
           (if Boilerplate Settings
            then emit_boilerplate (case Prefix Settings of None \<Rightarrow> [] | Some p \<Rightarrow> printf_str p)
                   ArbHash Functions NFunctions = Inr boilerplate
            else boilerplate = []) \<and>
           out = Generated_guard (WriteTimestamp Settings) @
                 (if Boilerplate Settings
                  then Generated_version (case Prefix Settings of None \<Rightarrow> [] | Some p \<Rightarrow> printf_str p)
                  else []) @
                 Generated_baseline @ dlines @ Spacer @ Generated_debugproc @ typedefs @
                 boilerplate"
  using assms unfolding emit_header_def bind_fault_def Let_def
  by (auto split: sum.splits if_splits)

lemma boilerplate_ends:
  assumes "emit_boilerplate P ArbHash Functions NFunctions = Inr boilerplate"
  shows "suffix ''#endif // INCLUDE_OPENGL_GENERATED_H\<newline>'' boilerplate"
proof -
  from assms obtain redefines globals loads where
    "boilerplate = Spacer @ redefines @ Spacer @ globals @ Generated_loader P @
       Generated_init_head P @ loads @ Generated_init_tail P"
    by (auto simp add: emit_boilerplate_def bind_fault_def split: sum.splits)
  then show ?thesis
    by (auto intro!: suffix_appendI Generated_init_tail_ends)
qed

lemma sublist_behind: "sublist xs ys \<Longrightarrow> sublist xs (ps @ ys)"
  by (auto simp add: sublist_append)

lemma sublist_before: "sublist xs ys \<Longrightarrow> sublist xs (ys @ ss)"
  by (auto simp add: sublist_append)

lemma sublist_needs_chars: "sublist xs ys \<Longrightarrow> c \<in> set xs \<Longrightarrow> c \<in> set ys"
  using set_mono_sublist by fastforce

lemma example_read:
  "ReadMultiFiles example_files [''gl.h''] = (Some example_registry, [])"
  by (simp add: ReadMultiFiles_def example_files_def example_registry_def)

lemma example_blocks:
  assumes "qsort_contract sorter"
  shows "emit_loop (define_body example_ArbHash)
           (sorter TokenComparer (DefinesHash (example_scanned g))) 2 0 =
         Inr ''#define GL_MAJOR_VERSION 0x821B\<newline>''"
    and "emit_loop (typedef_body example_ArbHash)
           (sorter TokenComparer (FunctionsHash (example_scanned g))) 2 0 =
         Inr ''typedef  void (APIENTRYP PFNGLCLEARPROC)  (GLbitfield mask);\<newline>''"
proof -
  let ?F = "sorter TokenComparer (FunctionsHash (example_scanned g))"
  let ?D = "sorter TokenComparer (DefinesHash (example_scanned g))"
  note hs = example_sorted [OF assms, of g]
  have two: "2 \<le> TOKEN_HASH_SIZE"
    by (simp add: TOKEN_HASH_SIZE_def)
  have lenF: "length ?F = TOKEN_HASH_SIZE"
    using arg_cong [OF hs(1), of length] two by simp
  have lenD: "length ?D = TOKEN_HASH_SIZE"
    using arg_cong [OF hs(2), of length] two by simp
  have F0: "GLToken.Hash (?F ! 0) = 0xfe4ab190" and F1: "GLToken.Hash (?F ! Suc 0) = 0xb5c6eb8f"
    using arg_cong [OF hs(1), of "\<lambda>xs. xs ! 0"] arg_cong [OF hs(1), of "\<lambda>xs. xs ! Suc 0"]
      lenF two by simp_all
  have D0: "GLToken.Hash (?D ! 0) = 0xfb08e2e7" and D1: "GLToken.Hash (?D ! Suc 0) = 0x550f607b"
    using arg_cong [OF hs(2), of "\<lambda>xs. xs ! 0"] arg_cong [OF hs(2), of "\<lambda>xs. xs ! Suc 0"]
      lenD two by simp_all
  show "emit_loop (define_body example_ArbHash) ?D 2 0 =
      Inr ''#define GL_MAJOR_VERSION 0x821B\<newline>''"
    using lenD two
    by (simp add: emit_loop_two example_define_lines D0 D1 bind_fault_def)
  show "emit_loop (typedef_body example_ArbHash) ?F 2 0 =
      Inr ''typedef  void (APIENTRYP PFNGLCLEARPROC)  (GLbitfield mask);\<newline>''"
    using lenF two
    by (simp add: emit_loop_two example_function_lines F0 F1 bind_fault_def)
qed

lemma example_world_scanned:
  "ParseFiles ((files (example_world stamp))(Output (example_settings b ts) \<mapsto> []))
     (Inputs (example_settings b ts)) example_ArbHash (example_settings b ts)
     (seeded_state (uninit (example_world stamp)) []) =
   Inr (example_scanned (uninit (example_world stamp)))"
proof -
  have "((files (example_world stamp))(''gl.generated.h'' \<mapsto> [])) ''main.c'' = Some example_source"
    by (simp add: example_world_def example_files_def)
  from example_ParseFiles [of "(files (example_world stamp))(''gl.generated.h'' \<mapsto> [])", OF this]
  show ?thesis
    by (simp add: example_fields del: ParseFiles.simps fun_upd_apply)
qed

lemma example_rewritten:
  "(example_settings b ts)\<lparr>WriteTimestamp := stamp\<rparr> = example_settings b stamp"
  by (simp add: example_settings_def)

lemma example_main:
  assumes "qsort_contract (qsort w)" and "files w = example_files"
    and "writable w ''gl.generated.h''" and "last_write w ''gl.generated.h'' = stamp"
  shows "main w (example_settings b ts) =
         Inr (0, Some \<lparr>Success = 0, Written = Some (example_output b stamp), Errors = [],
                       Printed = [completed_message 2 2 2]\<rparr>)"
  using example_run [OF assms(1,2,3), of b stamp]
  by (simp add: main_def Let_def example_fields example_rewritten assms(4) bind_fault_def)

lemma digit_chars:
  "char_of (48 :: nat) = CHR ''0''" "char_of (49 :: nat) = CHR ''1''"
  "char_of (55 :: nat) = CHR ''7''"
  by code_simp+

lemma decimal_examples:
  "decimal 0 = ''0''"
  "decimal 1700000000 = ''1700000000''"
  by (simp_all add: decimal.simps digit_chars)

lemma example_outputs_differ: "example_output b 0 \<noteq> example_output b 1700000000"
  by (simp add: example_output_def Generated_guard_def decimal_examples)

lemma nth_hash_mem:
  "i < length TokenHash \<Longrightarrow> GLToken.Hash (TokenHash ! i) = h \<Longrightarrow>
   h \<in> GLToken.Hash ` set TokenHash"
  by (metis nth_mem imageI)


section \<open>Warnings of the scanner\<close>

lemma first_byte:
  assumes "Length Token \<noteq> 0" and "prefix (bytes_of Token) (c # cs) \<or> prefix (c # cs) (bytes_of Token)"
  shows "char_at (Chars Token) 0 = c"
proof -
  from assms(1) have "bytes_of Token = char_at (Chars Token) 0 # map (char_at (Chars Token)) [1..<Length Token]"
    by (simp add: bytes_of_def upt_conv_Cons)
  with assms(2) show ?thesis by auto
qed

lemma function_candidate_no_define:
  assumes "is_function_candidate Token = Inr True"
  shows "\<not> StartsWith (GLToken.Value Token) ''GL_''"
proof
  assume d: "StartsWith (GLToken.Value Token) ''GL_''"
  from assms have f: "StartsWith (GLToken.Value Token) ''gl''"
    by (auto simp add: is_function_candidate_def split: if_splits)
  from f have "char_at (Chars (GLToken.Value Token)) 0 = CHR ''g''"
    unfolding StartsWith_iff by (intro first_byte) (auto simp add: printf_str_def NUL_def)
  moreover from d have "char_at (Chars (GLToken.Value Token)) 0 = CHR ''G''"
    unfolding StartsWith_iff by (intro first_byte) (auto simp add: printf_str_def NUL_def)
  ultimately show False by simp
qed

lemma define_candidate_no_function:
  assumes "StartsWith (GLToken.Value Token) ''GL_''"
  shows "is_function_candidate Token = Inr False"
proof -
  have "\<not> StartsWith (GLToken.Value Token) ''gl''"
  proof
    assume f: "StartsWith (GLToken.Value Token) ''gl''"
    from f have "char_at (Chars (GLToken.Value Token)) 0 = CHR ''g''"
      unfolding StartsWith_iff by (intro first_byte) (auto simp add: printf_str_def NUL_def)
    moreover from assms have "char_at (Chars (GLToken.Value Token)) 0 = CHR ''G''"
      unfolding StartsWith_iff by (intro first_byte) (auto simp add: printf_str_def NUL_def)
    ultimately show False by simp
  qed
  then show ?thesis
    by (simp add: is_function_candidate_def)
qed

lemma printf_str_prefix: "prefix (printf_str e) e"
  unfolding printf_str_def by (metis prefixI takeWhile_dropWhile_id)

lemma not_ignored:
  assumes "\<forall>e \<in> set Ignored. \<not> prefix (bytes_of (GLToken.Value Token)) e"
  shows "\<not> ignored_loop Token Ignored"
  using assms printf_str_prefix unfolding ignored_loop_iff Equal_iff
  by (meson prefix_order.trans)

lemma unknown_token_warned:
  assumes "GetToken ArbHash (GLToken.Hash Token) = None"
    and "\<forall>e \<in> set (Ignores Settings). \<not> prefix (bytes_of (GLToken.Value Token)) e"
  shows "IsKnownOrIgnoredToken ArbHash Token Settings = (False, [warning_not_found Token])"
  using assms not_ignored [of "Ignores Settings" Token]
  by (simp add: IsKnownOrIgnoredToken_def)

text \<open>
  C8 (amended). When the scanner reads a candidate (a function candidate, or a token that
  starts with \<^verbatim>\<open>GL_\<close>) whose hash is not yet in the result set of its kind, whose hash the
  registry table does not hold and whose text is not a prefix of any entry of the ignore
  list, it appends exactly one warning naming the token to the diagnostic stream, leaves
  both result sets and both counts as they are, and goes on scanning behind the token.
\<close>

theorem unresolved_candidate_warned_once:
  assumes "deref At \<noteq> NUL"
    and "GetToken ArbHash (GLToken.Hash (fst (ParseToken At))) = None"
    and "\<forall>e \<in> set (Ignores Settings). \<not> prefix (bytes_of (GLToken.Value (fst (ParseToken At)))) e"
  shows "(is_function_candidate (fst (ParseToken At)) = Inr True \<and>
          \<not> Contains (FunctionsHash st) (fst (ParseToken At)) \<longrightarrow>
            ParseFile_loop ArbHash Settings At st =
              ParseFile_loop ArbHash Settings (snd (ParseToken At))
                (st\<lparr>Stderr := Stderr st @ [warning_not_found (fst (ParseToken At))]\<rparr>)) \<and>
         (StartsWith (GLToken.Value (fst (ParseToken At))) ''GL_'' \<and>
          \<not> Contains (DefinesHash st) (fst (ParseToken At)) \<longrightarrow>
            ParseFile_loop ArbHash Settings At st =
              ParseFile_loop ArbHash Settings (snd (ParseToken At))
                (st\<lparr>Stderr := Stderr st @ [warning_not_found (fst (ParseToken At))]\<rparr>))"
proof (intro conjI impI)
  let ?Token = "fst (ParseToken At)"
  note warned = unknown_token_warned [OF assms(2,3)]
  {
    assume a: "is_function_candidate ?Token = Inr True \<and> \<not> Contains (FunctionsHash st) ?Token"
    then have "ParseFile_token ArbHash Settings ?Token st =
        Inr (st\<lparr>Stderr := Stderr st @ [warning_not_found ?Token]\<rparr>)"
      using function_candidate_no_define [of ?Token] warned
      by (simp add: ParseFile_token_def record_function_def)
    then show "ParseFile_loop ArbHash Settings At st =
        ParseFile_loop ArbHash Settings (snd (ParseToken At))
          (st\<lparr>Stderr := Stderr st @ [warning_not_found ?Token]\<rparr>)"
      using assms(1) by (subst ParseFile_loop.simps) simp
  }
  {
    assume a: "StartsWith (GLToken.Value ?Token) ''GL_'' \<and> \<not> Contains (DefinesHash st) ?Token"
    then have "ParseFile_token ArbHash Settings ?Token st =
        Inr (st\<lparr>Stderr := Stderr st @ [warning_not_found ?Token]\<rparr>)"
      using define_candidate_no_function [of ?Token] warned
      by (simp add: ParseFile_token_def record_define_def)
    then show "ParseFile_loop ArbHash Settings At st =
        ParseFile_loop ArbHash Settings (snd (ParseToken At))
          (st\<lparr>Stderr := Stderr st @ [warning_not_found ?Token]\<rparr>)"
      using assms(1) by (subst ParseFile_loop.simps) simp
  }
qed

theorem unresolved_candidate_warned_once_witness:
  "ParseFile_loop example_ArbHash (example_settings False 0) ''glBar();''
     (seeded_state (uninit (example_world 0)) []) =
   Inr (seeded_state (uninit (example_world 0)) []
          \<lparr>Stderr := [TermColorYellow @ ''WARNING'' @ TermColorReset @
                      '': Token not found in header: glBar\<newline>'']\<rparr>)"
proof -
  let ?S = "example_settings False 0"
  let ?st = "seeded_state (uninit (example_world 0)) []"
  let ?Token = "\<lparr>GLToken.Value = \<lparr>Chars = ''glBar();'', Length = 5\<rparr>, GLToken.Hash = 0xf7842be7\<rparr>"
  have tok: "ParseToken ''glBar();'' = (?Token, ''();'')"
    by (simp add: scan_simps GetStringHash_def GetStringHash_loop.simps)
  have rest: "ParseToken ''();'' = (\<lparr>GLToken.Value = \<lparr>Chars = [], Length = 0\<rparr>, GLToken.Hash = 1\<rparr>, [])"
    by (simp add: scan_simps GetStringHash_def GetStringHash_loop.simps)
  have live: "deref ''glBar();'' \<noteq> NUL" "deref ''();'' \<noteq> NUL"
    by (simp_all add: deref_def NUL_def)
  have unknown: "GetToken example_ArbHash (GLToken.Hash (fst (ParseToken ''glBar();''))) = None"
    unfolding tok
    by (rule GetToken_home_empty)
      (simp_all add: example_ArbHash_def table_simps GLArbToken_zero_def)
  have noignore: "\<forall>e \<in> set (Ignores ?S).
      \<not> prefix (bytes_of (GLToken.Value (fst (ParseToken ''glBar();'')))) e"
    by (simp add: example_fields)
  have cand: "is_function_candidate (fst (ParseToken ''glBar();'')) = Inr True"
    unfolding tok by (simp add: is_function_candidate_def scan_simps)
  have fresh: "\<not> Contains (FunctionsHash ?st) (fst (ParseToken ''glBar();''))"
    unfolding tok seeded_state_eq
    by (rule Contains_home_empty) (simp_all add: table_simps GLToken_zero_def)
  have warn: "warning_not_found ?Token =
      TermColorYellow @ ''WARNING'' @ TermColorReset @ '': Token not found in header: glBar\<newline>''"
    by (simp add: warning_not_found_def scan_simps)
  have "ParseFile_loop example_ArbHash ?S ''glBar();'' ?st =
      ParseFile_loop example_ArbHash ?S (snd (ParseToken ''glBar();''))
        (?st\<lparr>Stderr := Stderr ?st @ [warning_not_found (fst (ParseToken ''glBar();''))]\<rparr>)"
    using unresolved_candidate_warned_once [OF live(1) unknown noignore, of ?st] cand fresh
    by blast
  also have "\<dots> = ParseFile_loop example_ArbHash ?S ''();''
      (?st\<lparr>Stderr := [warning_not_found ?Token]\<rparr>)"
    by (simp add: tok seeded_state_def)
  also have "\<dots> = ParseFile_loop example_ArbHash ?S [] (?st\<lparr>Stderr := [warning_not_found ?Token]\<rparr>)"
    by (subst ParseFile_loop.simps)
      (simp add: live rest ParseFile_token_def is_function_candidate_def scan_simps)
  also have "\<dots> = Inr (?st\<lparr>Stderr := [warning_not_found ?Token]\<rparr>)"
    by (subst ParseFile_loop.simps) (simp add: deref_def)
  finally show ?thesis
    unfolding warn .
qed

text \<open>
  A candidate whose hash is already in the result set is not looked up at all:
  \<^verbatim>\<open>glGetIntegerv\<close> is seeded, so a source file that calls it is scanned without any
  warning, although the registry of the worked run does not declare it and the ignore list
  is empty.
\<close>

theorem seeded_candidate_not_warned:
  "is_function_candidate (fst (ParseToken ''glGetIntegerv(0, 0);'')) = Inr True \<and>
   GetToken example_ArbHash (GLToken.Hash (fst (ParseToken ''glGetIntegerv(0, 0);''))) = None \<and>
   Ignores (example_settings False 0) = [] \<and>
   ParseFile_loop example_ArbHash (example_settings False 0) ''glGetIntegerv(0, 0);''
     (seeded_state (uninit (example_world 0)) []) =
   Inr (seeded_state (uninit (example_world 0)) [])"
proof -
  let ?S = "example_settings False 0"
  let ?st = "seeded_state (uninit (example_world 0)) []"
  let ?Token = "\<lparr>GLToken.Value = \<lparr>Chars = ''glGetIntegerv(0, 0);'', Length = 13\<rparr>,
                 GLToken.Hash = 0xfe4ab190\<rparr>"
  have tok: "ParseToken ''glGetIntegerv(0, 0);'' = (?Token, ''(0, 0);'')"
    by (simp add: scan_simps GetStringHash_def GetStringHash_loop.simps)
  have toks:
    "ParseToken ''(0, 0);'' =
       (\<lparr>GLToken.Value = \<lparr>Chars = ''0, 0);'', Length = 1\<rparr>, GLToken.Hash = 0x010001A3\<rparr>, '', 0);'')"
    "ParseToken '', 0);'' =
       (\<lparr>GLToken.Value = \<lparr>Chars = ''0);'', Length = 1\<rparr>, GLToken.Hash = 0x010001A3\<rparr>, '');'')"
    "ParseToken '');'' = (\<lparr>GLToken.Value = \<lparr>Chars = [], Length = 0\<rparr>, GLToken.Hash = 1\<rparr>, [])"
    by (simp_all add: scan_simps GetStringHash_def GetStringHash_loop.simps)
  have live: "deref ''glGetIntegerv(0, 0);'' \<noteq> NUL" "deref ''(0, 0);'' \<noteq> NUL"
      "deref '', 0);'' \<noteq> NUL" "deref '');'' \<noteq> NUL"
    by (simp_all add: deref_def NUL_def)
  have cand: "is_function_candidate ?Token = Inr True"
    by (simp add: is_function_candidate_def scan_simps)
  have unknown: "GetToken example_ArbHash 0xfe4ab190 = None"
    by (rule example_lookup)
  have seeded: "Contains (FunctionsHash ?st) ?Token"
    unfolding seeded_state_eq
    by (rule Contains_home_hit) (simp_all add: table_simps seed_token_def)
  have nodef: "\<not> StartsWith \<lparr>Chars = ''glGetIntegerv(0, 0);'', Length = 13\<rparr> ''GL_''"
    by (simp add: scan_simps)
  have first: "ParseFile_token example_ArbHash ?S ?Token ?st = Inr ?st"
    using seeded by (simp add: ParseFile_token_def cand nodef record_function_def Let_def)
  have others:
    "ParseFile_token example_ArbHash ?S
       \<lparr>GLToken.Value = \<lparr>Chars = ''0, 0);'', Length = 1\<rparr>, GLToken.Hash = 0x010001A3\<rparr> ?st = Inr ?st"
    "ParseFile_token example_ArbHash ?S
       \<lparr>GLToken.Value = \<lparr>Chars = ''0);'', Length = 1\<rparr>, GLToken.Hash = 0x010001A3\<rparr> ?st = Inr ?st"
    "ParseFile_token example_ArbHash ?S
       \<lparr>GLToken.Value = \<lparr>Chars = [], Length = 0\<rparr>, GLToken.Hash = 1\<rparr> ?st = Inr ?st"
    by (simp_all add: ParseFile_token_def is_function_candidate_def scan_simps)
  have "ParseFile_loop example_ArbHash ?S [] ?st = Inr ?st"
    by (subst ParseFile_loop.simps) (simp add: deref_def)
  then have "ParseFile_loop example_ArbHash ?S '');'' ?st = Inr ?st"
    by (subst ParseFile_loop.simps) (simp add: live toks others del: One_nat_def)
  then have "ParseFile_loop example_ArbHash ?S '', 0);'' ?st = Inr ?st"
    by (subst ParseFile_loop.simps) (simp add: live toks others del: One_nat_def)
  then have "ParseFile_loop example_ArbHash ?S ''(0, 0);'' ?st = Inr ?st"
    by (subst ParseFile_loop.simps) (simp add: live toks others del: One_nat_def)
  then have "ParseFile_loop example_ArbHash ?S ''glGetIntegerv(0, 0);'' ?st = Inr ?st"
    by (subst ParseFile_loop.simps) (simp add: live tok first del: One_nat_def)
  then show ?thesis
    by (simp add: tok cand unknown example_fields)
qed


section \<open>Reproducible output\<close>

lemma AddToken_same_hashes:
  assumes "length T = TOKEN_HASH_SIZE" and "map GLToken.Hash T' = map GLToken.Hash T"
    and "GLToken.Hash Token' = GLToken.Hash Token"
  shows "map GLToken.Hash (snd (AddToken T' Token')) = map GLToken.Hash (snd (AddToken T Token))"
proof -
  let ?I = "GLToken.Hash Token AND (of_nat TOKEN_HASH_SIZE - 1)"
  have len: "length T' = TOKEN_HASH_SIZE"
    using assms(1) arg_cong [OF assms(2), of length] by simp
  have "AddToken_probe T' ?I 0 = probe_free (map GLToken.Hash T') ?I 0"
    using len by (rule AddToken_probe_free) (rule mask_index_less)
  moreover have "AddToken_probe T ?I 0 = probe_free (map GLToken.Hash T) ?I 0"
    using assms(1) by (rule AddToken_probe_free) (rule mask_index_less)
  ultimately have "AddToken_probe T' ?I 0 = AddToken_probe T ?I 0"
    by (simp add: assms(2))
  then show ?thesis
    by (simp add: AddToken_def Let_def assms(2,3) map_update split: prod.splits)
qed

lemma Contains_same_hashes:
  assumes "length T = TOKEN_HASH_SIZE" and "map GLToken.Hash T' = map GLToken.Hash T"
  shows "Contains T' Token = Contains T Token"
proof -
  have len: "length T' = TOKEN_HASH_SIZE"
    using assms(1) arg_cong [OF assms(2), of length] by simp
  show ?thesis
    unfolding Contains_def
    by (simp add: Contains_loop_probe_stop [OF len mask_index_less]
        Contains_loop_probe_stop [OF assms(1) mask_index_less] assms(2))
qed

lemma record_function_same:
  assumes "same_sets st' st"
  shows "same_sets (record_function ArbHash Settings Token st')
           (record_function ArbHash Settings Token st)"
proof -
  from assms have len: "length (FunctionsHash st) = TOKEN_HASH_SIZE"
    and hs: "map GLToken.Hash (FunctionsHash st') = map GLToken.Hash (FunctionsHash st)"
    by (simp_all add: same_sets_def)
  note c = Contains_same_hashes [OF len hs, of Token]
  note a = AddToken_same_hashes [OF len hs refl, of Token]
  show ?thesis
    using assms c a
    by (simp add: record_function_def same_sets_def AddToken_length split: prod.splits)
qed

lemma record_define_same:
  assumes "same_sets st' st"
  shows "same_sets (record_define ArbHash Settings Token st')
           (record_define ArbHash Settings Token st)"
proof -
  from assms have len: "length (DefinesHash st) = TOKEN_HASH_SIZE"
    and hs: "map GLToken.Hash (DefinesHash st') = map GLToken.Hash (DefinesHash st)"
    by (simp_all add: same_sets_def)
  note c = Contains_same_hashes [OF len hs, of Token]
  note a = AddToken_same_hashes [OF len hs refl, of Token]
  show ?thesis
    using assms c a
    by (simp add: record_define_def same_sets_def AddToken_length split: prod.splits)
qed

lemma ParseFile_token_same:
  assumes "same_sets st' st"
  shows "rel_sum (=) same_sets (ParseFile_token ArbHash Settings Token st')
           (ParseFile_token ArbHash Settings Token st)"
  using assms
  by (auto simp add: ParseFile_token_def Let_def record_function_same record_define_same
      split: sum.splits)

lemma ParseFile_loop_same:
  "same_sets st' st \<Longrightarrow>
   rel_sum (=) same_sets (ParseFile_loop ArbHash Settings At st')
     (ParseFile_loop ArbHash Settings At st)"
proof (induction ArbHash Settings At st arbitrary: st' rule: ParseFile_loop.induct)
  case (1 ArbHash Settings At st)
  note tok = ParseFile_token_same [OF "1.prems", of ArbHash Settings "fst (ParseToken At)"]
  show ?case
  proof (cases "deref At \<noteq> NUL")
    case False
    then show ?thesis
      using "1.prems"
      by (simp add: ParseFile_loop.simps [of ArbHash Settings At st]
          ParseFile_loop.simps [of ArbHash Settings At st'])
  next
    case True
    show ?thesis
    proof (cases "ParseFile_token ArbHash Settings (fst (ParseToken At)) st")
      case (Inl f)
      with tok have "ParseFile_token ArbHash Settings (fst (ParseToken At)) st' = Inl f"
        by (cases "ParseFile_token ArbHash Settings (fst (ParseToken At)) st'") simp_all
      with Inl True show ?thesis
        by (simp add: ParseFile_loop.simps [of ArbHash Settings At st]
            ParseFile_loop.simps [of ArbHash Settings At st'])
    next
      case (Inr x)
      with tok obtain x' where x': "ParseFile_token ArbHash Settings (fst (ParseToken At)) st' = Inr x'"
        and rel: "same_sets x' x"
        by (cases "ParseFile_token ArbHash Settings (fst (ParseToken At)) st'") simp_all
      from "1.IH" [OF True Inr rel] Inr x' True show ?thesis
        by (simp add: ParseFile_loop.simps [of ArbHash Settings At st]
            ParseFile_loop.simps [of ArbHash Settings At st'])
    qed
  qed
qed

lemma ParseFile_same:
  assumes "same_sets st' st"
  shows "rel_sum (=) same_sets (ParseFile fs Filename ArbHash Settings st')
           (ParseFile fs Filename ArbHash Settings st)"
proof -
  have "same_sets (st'\<lparr>Stderr := Stderr st' @ p\<rparr>) (st\<lparr>Stderr := Stderr st @ p\<rparr>)" for p
    using assms by (simp add: same_sets_def)
  then show ?thesis
    by (auto simp add: ParseFile_def intro: ParseFile_loop_same split: prod.splits option.splits)
qed

lemma ParseFiles_same:
  "same_sets st' st \<Longrightarrow>
   rel_sum (=) same_sets (ParseFiles fs names ArbHash Settings st')
     (ParseFiles fs names ArbHash Settings st)"
proof (induction names arbitrary: st' st)
  case Nil
  then show ?case by simp
next
  case (Cons Filename rest)
  from ParseFile_same [OF Cons.prems, of fs Filename ArbHash Settings]
  show ?case
    by (cases "ParseFile fs Filename ArbHash Settings st'";
        cases "ParseFile fs Filename ArbHash Settings st")
      (simp_all add: bind_fault_def Cons.IH)
qed

lemma AddCustomToken_length: "length (AddCustomToken T name u) = length T"
  by (simp add: AddCustomToken_def Let_def AddToken_length)

lemma AddCustomToken_same_hashes:
  assumes "length T = TOKEN_HASH_SIZE" and "map GLToken.Hash T' = map GLToken.Hash T"
  shows "map GLToken.Hash (AddCustomToken T' name u') = map GLToken.Hash (AddCustomToken T name u)"
  unfolding AddCustomToken_def Let_def
  by (rule AddToken_same_hashes [OF assms]) simp

lemma seeded_state_same: "same_sets (seeded_state u' printed) (seeded_state u printed)"
  by (simp add: same_sets_def seeded_state_def AddCustomToken_length calloc_GLToken_length
      AddCustomToken_same_hashes)

lemma qsort_same_hashes:
  assumes "qsort_contract sorter" and "qsort_contract sorter'"
    and "map GLToken.Hash T' = map GLToken.Hash T"
  shows "map GLToken.Hash (sorter' TokenComparer T') = map GLToken.Hash (sorter TokenComparer T)"
proof -
  from assms(1) have "qsort_post TokenComparer T (sorter TokenComparer T)"
    by (simp add: qsort_contract_def)
  moreover from assms(2) have "qsort_post TokenComparer T' (sorter' TokenComparer T')"
    by (simp add: qsort_contract_def)
  ultimately show ?thesis
    by (simp add: qsort_hashes_sorted assms(3))
qed

lemma emit_loop_same_hashes:
  assumes "map GLToken.Hash T' = map GLToken.Hash T"
    and "\<And>t t'. GLToken.Hash t' = GLToken.Hash t \<Longrightarrow> body t' = body t"
  shows "emit_loop body T' Count Index = emit_loop body T Count Index"
proof (induction "Count - Index" arbitrary: Index)
  case 0
  then show ?case
    by (simp add: emit_loop.simps [of body T Count Index] emit_loop.simps [of body T' Count Index])
next
  case (Suc n)
  have len: "length T' = length T"
    using arg_cong [OF assms(1), of length] by simp
  have same: "body (T' ! Index) = body (T ! Index)" if "Index < length T"
  proof (rule assms(2))
    from that len arg_cong [OF assms(1), of "\<lambda>xs. xs ! Index"]
    show "GLToken.Hash (T' ! Index) = GLToken.Hash (T ! Index)"
      by simp
  qed
  from Suc.hyps(2) have "n = Count - (Index + 1)"
    by simp
  then have "emit_loop body T' Count (Index + 1) = emit_loop body T Count (Index + 1)"
    by (rule Suc.hyps(1))
  then show ?case
    using len same
    by (simp add: emit_loop.simps [of body T Count Index] emit_loop.simps [of body T' Count Index])
qed

lemma emit_header_same_hashes:
  assumes "map GLToken.Hash F' = map GLToken.Hash F" and "map GLToken.Hash D' = map GLToken.Hash D"
  shows "emit_header Settings ArbHash F' n D' m = emit_header Settings ArbHash F n D m"
proof -
  have dlines: "emit_loop (define_body ArbHash) D' m 0 = emit_loop (define_body ArbHash) D m 0"
    using assms(2) by (rule emit_loop_same_hashes) (simp add: define_body_def)
  have typedefs: "emit_loop (typedef_body ArbHash) F' n 0 = emit_loop (typedef_body ArbHash) F n 0"
    using assms(1) by (rule emit_loop_same_hashes) (simp add: typedef_body_def)
  have redefines: "emit_loop (redefine_body ArbHash) F' n 0 = emit_loop (redefine_body ArbHash) F n 0"
    using assms(1) by (rule emit_loop_same_hashes) (simp add: redefine_body_def)
  have globals: "emit_loop (global_body ArbHash) F' n 0 = emit_loop (global_body ArbHash) F n 0"
    using assms(1) by (rule emit_loop_same_hashes) (simp add: global_body_def)
  have loads: "emit_loop (load_body P ArbHash) F' n 0 = emit_loop (load_body P ArbHash) F n 0" for P
    using assms(1) by (rule emit_loop_same_hashes) (simp add: load_body_def)
  show ?thesis
    unfolding emit_header_def emit_boilerplate_def dlines typedefs redefines globals loads ..
qed

lemma ReadEntireFile_cong:
  "fs' Filename = fs Filename \<Longrightarrow> ReadEntireFile fs' Filename = ReadEntireFile fs Filename"
  by (simp add: ReadEntireFile_def)

lemma ReadMultiFiles_loop_cong:
  "\<forall>name \<in> set names. fs' name = fs name \<Longrightarrow>
   ReadMultiFiles_loop fs' names buf err = ReadMultiFiles_loop fs names buf err"
proof (induction names arbitrary: buf err)
  case Nil
  show ?case by simp
next
  case (Cons Filename rest)
  from Cons.prems have same: "fs' Filename = fs Filename"
    by simp
  from Cons.prems have tail: "\<forall>name \<in> set rest. fs' name = fs name"
    by simp
  have rest: "ReadMultiFiles_loop fs' rest b e = ReadMultiFiles_loop fs rest b e" for b e
    using tail by (rule Cons.IH)
  show ?case
    unfolding ReadMultiFiles_loop.simps same rest ..
qed

lemma ReadMultiFiles_cong:
  "\<forall>name \<in> set names. fs' name = fs name \<Longrightarrow>
   ReadMultiFiles fs' names = ReadMultiFiles fs names"
proof -
  assume "\<forall>name \<in> set names. fs' name = fs name"
  then have "ReadMultiFiles_loop fs' names [] [] = ReadMultiFiles_loop fs names [] []"
    by (rule ReadMultiFiles_loop_cong)
  then show ?thesis
    unfolding ReadMultiFiles_def by (rule arg_cong)
qed

lemma ParseFile_cong:
  "fs' Filename = fs Filename \<Longrightarrow>
   ParseFile fs' Filename ArbHash Settings st = ParseFile fs Filename ArbHash Settings st"
proof -
  assume "fs' Filename = fs Filename"
  then have "ReadEntireFile fs' Filename = ReadEntireFile fs Filename"
    by (rule ReadEntireFile_cong)
  then show ?thesis
    unfolding ParseFile_def by simp
qed

lemma ParseFiles_cong:
  "\<forall>name \<in> set names. fs' name = fs name \<Longrightarrow>
   ParseFiles fs' names ArbHash Settings st = ParseFiles fs names ArbHash Settings st"
proof (induction names arbitrary: st)
  case Nil
  show ?case by simp
next
  case (Cons Filename rest)
  from Cons.prems have tail: "\<forall>name \<in> set rest. fs' name = fs name"
    and head: "fs' Filename = fs Filename"
    by simp_all
  have rest: "ParseFiles fs' rest ArbHash Settings x = ParseFiles fs rest ArbHash Settings x" for x
    using tail by (rule Cons.IH)
  have first: "ParseFile fs' Filename ArbHash Settings st =
      ParseFile fs Filename ArbHash Settings st"
    using head by (rule ParseFile_cong)
  show ?case
    unfolding ParseFiles.simps first bind_fault_def rest ..
qed

lemma generate_same:
  assumes "qsort_contract (qsort w)" and "qsort_contract (qsort w')"
    and "\<forall>name \<in> set (Inputs Settings). files w' name = files w name"
  shows "generate w' Settings Data printed = generate w Settings Data printed"
proof (cases "parse_registry Data calloc_GLArbToken 0")
  case (Inl f)
  then show ?thesis
    by (simp add: generate_def bind_fault_def)
next
  case (Inr parsed)
  obtain ArbHash ArbTokenCount where parsed: "parsed = (ArbHash, ArbTokenCount)"
    by (cases parsed)
  let ?fs = "(files w)(Output Settings \<mapsto> [])"
  let ?scan = "\<lambda>u. ParseFiles ?fs (Inputs Settings) ArbHash Settings (seeded_state u printed)"
  have files: "ParseFiles ((files w')(Output Settings \<mapsto> [])) (Inputs Settings) ArbHash Settings st =
      ParseFiles ?fs (Inputs Settings) ArbHash Settings st" for st
    by (rule ParseFiles_cong) (simp add: assms(3))
  have rel: "rel_sum (=) same_sets (?scan (uninit w')) (?scan (uninit w))"
    by (rule ParseFiles_same) (rule seeded_state_same)
  show ?thesis
  proof (cases "?scan (uninit w)")
    case (Inl f)
    with rel have "?scan (uninit w') = Inl f"
      by (cases "?scan (uninit w')") simp_all
    with Inl Inr parsed show ?thesis
      by (simp add: generate_def bind_fault_def files)
  next
    case scanned: (Inr st)
    with rel obtain st' where scanned': "?scan (uninit w') = Inr st'" and same: "same_sets st' st"
      by (cases "?scan (uninit w')") simp_all
    from same have hashes:
      "map GLToken.Hash (FunctionsHash st') = map GLToken.Hash (FunctionsHash st)"
      "map GLToken.Hash (DefinesHash st') = map GLToken.Hash (DefinesHash st)"
      and counts: "FunctionCount st' = FunctionCount st" "DefinesCount st' = DefinesCount st"
        "Stderr st' = Stderr st"
      by (simp_all add: same_sets_def)
    have "emit_header Settings ArbHash
        (qsort w' TokenComparer (FunctionsHash st')) (FunctionCount st)
        (qsort w' TokenComparer (DefinesHash st')) (DefinesCount st) =
      emit_header Settings ArbHash
        (qsort w TokenComparer (FunctionsHash st)) (FunctionCount st)
        (qsort w TokenComparer (DefinesHash st)) (DefinesCount st)"
      by (rule emit_header_same_hashes)
        (rule qsort_same_hashes [OF assms(1,2)], rule hashes)+
    with Inr parsed scanned scanned' counts show ?thesis
      by (simp add: generate_def bind_fault_def files split: sum.splits)
  qed
qed

lemma GenerateOpenGLHeader_same:
  assumes "qsort_contract (qsort w)" and "qsort_contract (qsort w')"
    and "\<forall>name \<in> set (Headers Settings) \<union> set (Inputs Settings). files w' name = files w name"
    and "writable w' (Output Settings) = writable w (Output Settings)"
  shows "GenerateOpenGLHeader w' Settings = GenerateOpenGLHeader w Settings"
proof -
  have registry: "ReadMultiFiles (files w') (Headers Settings) =
      ReadMultiFiles (files w) (Headers Settings)"
    by (rule ReadMultiFiles_cong) (simp add: assms(3))
  have run: "generate w' Settings Data printed = generate w Settings Data printed"
    for Data printed
    using assms(1,2) by (rule generate_same) (simp add: assms(3))
  show ?thesis
    unfolding GenerateOpenGLHeader_def registry run assms(4) ..
qed

text \<open>
  C6 (amended). Take two generation runs with the same settings (the ignore list among
  them) whose registry files and input files hold the same bytes, which find the same
  last-write time on the previous output file and get the same answer when they open the
  output file.  When the first run completes (it reads outside no buffer, fails no
  assertion and overflows no \<^verbatim>\<open>sprintf\<close> buffer), the second completes with the same return
  value, the same bytes in the output file and the same diagnostics, provided \<^verbatim>\<open>qsort\<close>
  sorts in both runs: whatever order it gives to slots of equal hash, whatever the
  uninitialised \<^verbatim>\<open>Token.Value\<close> of the seeds holds and whatever other files exist.
\<close>

theorem rerun_reproduces_output:
  assumes "qsort_contract (qsort w)" and "qsort_contract (qsort w')"
    and "\<forall>name \<in> set (Headers Parsed) \<union> set (Inputs Parsed). files w' name = files w name"
    and "writable w' (Output Parsed) = writable w (Output Parsed)"
    and "last_write w' (Output Parsed) = last_write w (Output Parsed)"
    and "main w Parsed = Inr (code, Some r)"
    and "main w' Parsed \<noteq> Inr (0, None)"
  shows "main w' Parsed = Inr (code, Some r)"
proof -
  let ?S = "Parsed\<lparr>WriteTimestamp := last_write w (Output Parsed)\<rparr>"
  have same: "GenerateOpenGLHeader w' ?S = GenerateOpenGLHeader w ?S"
    using assms(1,2) by (rule GenerateOpenGLHeader_same) (simp_all add: assms(3,4))
  from assms(6) have first: "bind_fault (GenerateOpenGLHeader w ?S) (\<lambda>r. Inr (Success r, Some r)) =
      Inr (code, Some r)"
    by (simp add: main_def Let_def split: if_splits)
  from assms(7) have "main w' Parsed =
      bind_fault (GenerateOpenGLHeader w' ?S) (\<lambda>r. Inr (Success r, Some r))"
    by (simp add: main_def Let_def assms(5) split: if_splits)
  with same first show ?thesis
    by simp
qed

theorem rerun_reproduces_output_witness:
  "main (example_world 7) (example_settings True 0) =
     Inr (0, Some \<lparr>Success = 0, Written = Some (example_output True 7), Errors = [],
                   Printed = [completed_message 2 2 2]\<rparr>) \<and>
   main (example_other_world 7) (example_settings True 0) =
     Inr (0, Some \<lparr>Success = 0, Written = Some (example_output True 7), Errors = [],
                   Printed = [completed_message 2 2 2]\<rparr>)"
proof -
  let ?r = "\<lparr>Success = 0, Written = Some (example_output True 7), Errors = [],
             Printed = [completed_message 2 2 2]\<rparr>"
  have first: "main (example_world 7) (example_settings True 0) = Inr (0, Some ?r)"
    by (rule example_main) (simp_all add: example_world_def sort_by_contract)
  have generates: "main (example_other_world 7) (example_settings True 0) \<noteq> Inr (0, None)"
    by (simp add: main_def Let_def example_fields bind_fault_def split: sum.splits)
  have "main (example_other_world 7) (example_settings True 0) = Inr (0, Some ?r)"
    using _ _ _ _ _ first generates
    by (rule rerun_reproduces_output)
      (simp_all add: example_other_world_def example_world_def sort_by_contract example_fields)
  with first show ?thesis
    by simp
qed

text \<open>
  The last-write time of the output file before the run is printed into the
  \<^verbatim>\<open>@GENERATED\<close> comment: the first forced run, with no output file yet, and a second
  forced run over the same files, with the output file of the first, write different bytes.
\<close>

theorem second_run_writes_other_bytes:
  "files (example_world 1700000000) = files (example_world 0) \<and>
   main (example_world 0) (example_settings True 0) =
     Inr (0, Some \<lparr>Success = 0, Written = Some (example_output True 0), Errors = [],
                   Printed = [completed_message 2 2 2]\<rparr>) \<and>
   main (example_world 1700000000) (example_settings True 0) =
     Inr (0, Some \<lparr>Success = 0, Written = Some (example_output True 1700000000), Errors = [],
                   Printed = [completed_message 2 2 2]\<rparr>) \<and>
   example_output True 0 \<noteq> example_output True 1700000000"
proof -
  have "main (example_world stamp) (example_settings True 0) =
      Inr (0, Some \<lparr>Success = 0, Written = Some (example_output True stamp), Errors = [],
                    Printed = [completed_message 2 2 2]\<rparr>)" for stamp
    by (rule example_main) (simp_all add: example_world_def sort_by_contract)
  moreover have "files (example_world 1700000000) = files (example_world 0)"
    by (simp add: example_world_def)
  ultimately show ?thesis
    using example_outputs_differ [of True] by simp
qed


section \<open>Order of the emitted result sets\<close>





















section \<open>The second run\<close>

lemma endif_parse:
  "ParseArbToken endif_registry =
     (GLArbToken_zero\<lparr>GLArbToken.Value := \<lparr>Chars = endif_registry, Length = 1\<rparr>\<rparr>,
      drop 1 endif_registry)"
  "ParseArbToken (drop 1 endif_registry) =
     (GLArbToken_zero\<lparr>GLArbToken.Value := \<lparr>Chars = drop 2 endif_registry, Length = 6\<rparr>\<rparr>,
      drop 8 endif_registry)"
  "ParseArbToken (drop 38 endif_registry) =
     (GLArbToken_zero\<lparr>GLArbToken.Value := \<lparr>Chars = [], Length = 0\<rparr>\<rparr>, [])"
  by (simp_all add: endif_registry_def scan_simps)

lemma endif_eol: "AdvanceToEndOfLine (drop 8 endif_registry) = drop 38 endif_registry"
  by (simp add: endif_registry_def scan_simps)

lemma endif_hash:
  "GetStringHash \<lparr>Chars = drop 2 endif_registry, Length = 6\<rparr> = 0x49b1d4d2"
  by (simp add: endif_registry_def GetStringHash_def GetStringHash_loop.simps char_at_def)

lemma endif_tests:
  "\<not> Equal \<lparr>Chars = endif_registry, Length = 1\<rparr> ''GLAPI''"
  "StartsWith \<lparr>Chars = endif_registry, Length = 1\<rparr> ''#define''"
  by (simp_all add: endif_registry_def scan_simps)

lemma endif_length: "length endif_registry = 39"
  by (simp add: endif_registry_def)

lemma endif_live:
  "deref endif_registry \<noteq> NUL"
  "deref (drop 38 endif_registry) \<noteq> NUL"
  by (simp_all add: endif_registry_def deref_def NUL_def)

lemma endif_step1:
  "registry_step endif_registry calloc_GLArbToken 0 = Inr (drop 38 endif_registry, endif_ArbHash, 1)"
  unfolding registry_step_def registry_define_def endif_ArbHash_def
  by (simp add: endif_parse endif_eol endif_hash endif_tests GetToken_calloc AddToken_Arb_home
      table_simps GLArbToken_zero_def endif_length del: One_nat_def)

lemma endif_step2:
  "registry_step (drop 38 endif_registry) endif_ArbHash 1 = Inr ([], endif_ArbHash, 1)"
  unfolding registry_step_def
  by (simp add: endif_parse example_tests2 GLArbToken_zero_def del: One_nat_def)

lemma endif_parse_registry:
  "parse_registry endif_registry calloc_GLArbToken 0 = Inr (endif_ArbHash, 1)"
proof -
  have "parse_registry [] endif_ArbHash 1 = Inr (endif_ArbHash, 1)"
    by (subst parse_registry.simps) (simp add: deref_def)
  then have "parse_registry (drop 38 endif_registry) endif_ArbHash 1 = Inr (endif_ArbHash, 1)"
    by (subst parse_registry.simps) (simp add: endif_live endif_step2 del: One_nat_def)
  then show ?thesis
    by (subst parse_registry.simps) (simp add: endif_live endif_step1 del: One_nat_def)
qed

lemma endif_ArbHash_length: "length endif_ArbHash = TOKEN_HASH_SIZE"
  by (simp add: endif_ArbHash_def table_simps)

lemma endif_lookup:
  "GetToken endif_ArbHash 0x49b1d4d2 = Some 5330"
  "GetToken endif_ArbHash 0x550f607b = None"
  "GetToken endif_ArbHash 0xfe4ab190 = None"
  "GetToken endif_ArbHash 0xfb08e2e7 = None"
proof -
  show "GetToken endif_ArbHash 0x49b1d4d2 = Some 5330"
    using GetToken_home_hit [of endif_ArbHash "0x49b1d4d2"]
    by (simp add: endif_ArbHash_length) (simp add: endif_ArbHash_def table_simps)
  show "GetToken endif_ArbHash 0x550f607b = None"
    by (rule GetToken_home_empty)
      (simp_all add: endif_ArbHash_def table_simps GLArbToken_zero_def)
  show "GetToken endif_ArbHash 0xfe4ab190 = None"
    by (rule GetToken_home_empty)
      (simp_all add: endif_ArbHash_def table_simps GLArbToken_zero_def)
  show "GetToken endif_ArbHash 0xfb08e2e7 = None"
    by (rule GetToken_home_empty)
      (simp_all add: endif_ArbHash_def table_simps GLArbToken_zero_def)
qed

lemma endif_token:
  "ParseToken endif_source =
     (\<lparr>GLToken.Value = \<lparr>Chars = endif_source, Length = 10\<rparr>, GLToken.Hash = 0x49b1d4d2\<rparr>, [])"
  by (simp add: endif_source_def scan_simps GetStringHash_def GetStringHash_loop.simps)

lemma endif_token_scanned:
  "ParseFile_token endif_ArbHash (example_settings b ts)
     \<lparr>GLToken.Value = \<lparr>Chars = endif_source, Length = 10\<rparr>, GLToken.Hash = 0x49b1d4d2\<rparr>
     (seeded_state g []) = Inr (endif_scanned g)"
proof -
  let ?Token = "\<lparr>GLToken.Value = \<lparr>Chars = endif_source, Length = 10\<rparr>, GLToken.Hash = 0x49b1d4d2\<rparr>"
  have cand: "is_function_candidate ?Token = Inr False"
    by (simp add: is_function_candidate_def endif_source_def scan_simps)
  have isdef: "StartsWith \<lparr>Chars = endif_source, Length = 10\<rparr> ''GL_''"
    by (simp add: endif_source_def scan_simps)
  have fresh: "\<not> Contains
      (calloc_GLToken[123 := seed_token (g ''GL_MAJOR_VERSION'') 0x550f607b,
                      743 := seed_token (g ''GL_MINOR_VERSION'') 0xfb08e2e7]) ?Token"
    by (rule Contains_home_empty) (simp_all add: table_simps GLToken_zero_def)
  show ?thesis
    by (simp add: ParseFile_token_def cand isdef record_define_def seeded_state_eq fresh
        IsKnownOrIgnoredToken_def endif_lookup AddToken_home table_simps GLToken_zero_def
        endif_scanned_def del: One_nat_def)
qed

lemma endif_ParseFiles:
  assumes "fs ''main.c'' = Some endif_source"
  shows "ParseFiles fs [''main.c''] endif_ArbHash (example_settings b ts) (seeded_state g []) =
     Inr (endif_scanned g)"
proof -
  let ?S = "example_settings b ts"
  have "ParseFile_loop endif_ArbHash ?S [] (endif_scanned g) = Inr (endif_scanned g)"
    by (subst ParseFile_loop.simps) (simp add: deref_def)
  moreover have "deref endif_source \<noteq> NUL"
    by (simp add: endif_source_def deref_def NUL_def)
  ultimately have "ParseFile_loop endif_ArbHash ?S endif_source (seeded_state g []) =
      Inr (endif_scanned g)"
    by (subst ParseFile_loop.simps) (simp add: endif_token endif_token_scanned del: One_nat_def)
  moreover have "ReadEntireFile fs ''main.c'' = (Some endif_source, [])"
    by (simp add: ReadEntireFile_def assms endif_source_def)
  moreover have "seeded_state g [] \<lparr>Stderr := Stderr (seeded_state g []) @ []\<rparr> = seeded_state g []"
    by (simp add: seeded_state_def)
  ultimately show ?thesis
    by (simp add: ParseFile_def bind_fault_def)
qed

lemma one_populated_mset:
  assumes "i < TOKEN_HASH_SIZE"
  shows "mset (calloc_GLToken[i := a]) =
         add_mset a (replicate_mset (TOKEN_HASH_SIZE - 1) GLToken_zero)"
proof -
  obtain n where n: "TOKEN_HASH_SIZE = Suc n"
    by (simp add: TOKEN_HASH_SIZE_def)
  have zeros: "mset calloc_GLToken = add_mset GLToken_zero (replicate_mset n GLToken_zero)"
    by (simp add: calloc_GLToken_def n)
  have "mset (calloc_GLToken[i := a]) = add_mset a (mset calloc_GLToken - {#GLToken_zero#})"
    using assms by (simp add: mset_update calloc_GLToken_length calloc_GLToken_nth)
  then show ?thesis
    unfolding zeros by (simp add: n)
qed

lemma three_populated_mset:
  assumes "i < TOKEN_HASH_SIZE" and "j < TOKEN_HASH_SIZE" and "k < TOKEN_HASH_SIZE"
    and "i \<noteq> j" and "i \<noteq> k" and "j \<noteq> k"
  shows "mset (calloc_GLToken[i := a, j := b, k := c]) =
         add_mset a (add_mset b (add_mset c (replicate_mset (TOKEN_HASH_SIZE - 3) GLToken_zero)))"
proof -
  obtain n where n: "TOKEN_HASH_SIZE = Suc (Suc (Suc n))"
    by (simp add: TOKEN_HASH_SIZE_def)
  have zeros: "mset calloc_GLToken =
      add_mset GLToken_zero (add_mset GLToken_zero (add_mset GLToken_zero
        (replicate_mset n GLToken_zero)))"
    by (simp add: calloc_GLToken_def n)
  have "mset (calloc_GLToken[i := a, j := b, k := c]) =
      add_mset c (add_mset b (add_mset a (mset calloc_GLToken - {#GLToken_zero#}) -
        {#GLToken_zero#}) - {#GLToken_zero#})"
    using assms by (simp add: mset_update calloc_GLToken_length calloc_GLToken_nth)
  then show ?thesis
    unfolding zeros by (simp add: n)
qed

lemma sorted_populated:
  assumes "qsort_post TokenComparer T S"
    and "mset T = mset ts + replicate_mset n GLToken_zero"
    and "sorted_wrt (\<lambda>a b. GLToken.Hash b \<le> GLToken.Hash a) ts"
  shows "map GLToken.Hash S = map GLToken.Hash ts @ replicate n 0"
proof -
  let ?hs = "map GLToken.Hash ts @ replicate n 0"
  have "mset (map GLToken.Hash T) = image_mset GLToken.Hash (mset T)"
    by simp
  also have "\<dots> = mset ?hs"
    unfolding assms(2) by (simp add: GLToken_zero_def)
  finally have "mset (rev ?hs) = mset (map GLToken.Hash T)"
    by simp
  moreover have "sorted (rev (map GLToken.Hash ts))"
    using assms(3) by (simp add: sorted_wrt_rev sorted_wrt_map)
  then have "sorted (rev ?hs)"
    by (simp add: sorted_append)
  ultimately have "sort (map GLToken.Hash T) = rev ?hs"
    by (rule properties_for_sort)
  then show ?thesis
    using qsort_hashes_sorted [OF assms(1)] by simp
qed

lemma emit_loop_one:
  assumes "1 \<le> length T"
  shows "emit_loop body T 1 0 = body (T ! 0)"
proof -
  have "emit_loop body T 1 (Suc 0) = Inr []"
    by (rule emit_loop_done) simp
  moreover have "emit_loop body T 1 0 =
      bind_fault (body (T ! 0)) (\<lambda>written.
      bind_fault (emit_loop body T 1 (Suc 0)) (\<lambda>rest. Inr (written @ rest)))"
    using assms by (intro emit_loop_step) auto
  ultimately show ?thesis
    by (simp add: bind_fault_def split: sum.splits)
qed

lemma emit_loop_three:
  assumes "3 \<le> length T"
  shows "emit_loop body T 3 0 =
         bind_fault (body (T ! 0)) (\<lambda>w0. bind_fault (body (T ! Suc 0)) (\<lambda>w1.
         bind_fault (body (T ! Suc (Suc 0))) (\<lambda>w2. Inr (w0 @ w1 @ w2))))"
proof -
  have "emit_loop body T 3 (Suc (Suc (Suc 0))) = Inr []"
    by (rule emit_loop_done) simp
  moreover have "emit_loop body T 3 (Suc (Suc 0)) =
      bind_fault (body (T ! Suc (Suc 0))) (\<lambda>written.
      bind_fault (emit_loop body T 3 (Suc (Suc (Suc 0)))) (\<lambda>rest. Inr (written @ rest)))"
    using assms by (intro emit_loop_step) simp_all
  moreover have "emit_loop body T 3 (Suc 0) =
      bind_fault (body (T ! Suc 0)) (\<lambda>written.
      bind_fault (emit_loop body T 3 (Suc (Suc 0))) (\<lambda>rest. Inr (written @ rest)))"
    using assms by (intro emit_loop_step) simp_all
  moreover have "emit_loop body T 3 0 =
      bind_fault (body (T ! 0)) (\<lambda>written.
      bind_fault (emit_loop body T 3 (Suc 0)) (\<lambda>rest. Inr (written @ rest)))"
    using assms by (intro emit_loop_step) auto
  ultimately show ?thesis
    by (simp add: bind_fault_def split: sum.splits)
qed

lemma endif_sorted:
  assumes "qsort_contract sorter"
  shows "map GLToken.Hash (sorter TokenComparer (FunctionsHash (endif_scanned g))) =
           0xfe4ab190 # replicate (TOKEN_HASH_SIZE - 1) 0"
    and "map GLToken.Hash (sorter TokenComparer (DefinesHash (endif_scanned g))) =
           0xfb08e2e7 # 0x550f607b # 0x49b1d4d2 # replicate (TOKEN_HASH_SIZE - 3) 0"
proof -
  let ?seed = "seed_token (g ''glGetIntegerv'') 0xfe4ab190"
  let ?major = "seed_token (g ''GL_MAJOR_VERSION'') 0x550f607b"
  let ?minor = "seed_token (g ''GL_MINOR_VERSION'') 0xfb08e2e7"
  let ?anc = "\<lparr>GLToken.Value = \<lparr>Chars = endif_source, Length = 10\<rparr>, GLToken.Hash = 0x49b1d4d2\<rparr>"
  have F: "mset (FunctionsHash (endif_scanned g)) =
      mset [?seed] + replicate_mset (TOKEN_HASH_SIZE - 1) GLToken_zero"
    unfolding endif_scanned_def
    by (simp add: one_populated_mset less_TOKEN_HASH_SIZE)
  have D: "mset (DefinesHash (endif_scanned g)) =
      mset [?minor, ?major, ?anc] + replicate_mset (TOKEN_HASH_SIZE - 3) GLToken_zero"
    unfolding endif_scanned_def
    by (simp add: three_populated_mset less_TOKEN_HASH_SIZE)
  from assms have post: "qsort_post TokenComparer xs (sorter TokenComparer xs)" for xs
    by (simp add: qsort_contract_def)
  show "map GLToken.Hash (sorter TokenComparer (FunctionsHash (endif_scanned g))) =
      0xfe4ab190 # replicate (TOKEN_HASH_SIZE - 1) 0"
    using sorted_populated [OF post F] by (simp add: seed_token_def)
  show "map GLToken.Hash (sorter TokenComparer (DefinesHash (endif_scanned g))) =
      0xfb08e2e7 # 0x550f607b # 0x49b1d4d2 # replicate (TOKEN_HASH_SIZE - 3) 0"
    using sorted_populated [OF post D] by (simp add: seed_token_def)
qed

lemma endif_define_lines:
  "GLToken.Hash t = 0xfb08e2e7 \<Longrightarrow> define_body endif_ArbHash t = Inr []"
  "GLToken.Hash t = 0x550f607b \<Longrightarrow> define_body endif_ArbHash t = Inr []"
  "GLToken.Hash t = 0x49b1d4d2 \<Longrightarrow>
   define_body endif_ArbHash t = Inr ''#\<newline>#endif // INCLUDE_OPENGL_GENERATED_H\<newline>''"
  "GLToken.Hash t = 0xfe4ab190 \<Longrightarrow> typedef_body endif_ArbHash t = Inr []"
proof -
  have entry: "endif_ArbHash ! 5330 =
      \<lparr>GLArbToken.Value = \<lparr>Chars = drop 2 endif_registry, Length = 6\<rparr>,
       Line = \<lparr>Chars = endif_registry, Length = 38\<rparr>,
       ReturnType = GLString_zero, FunctionName = GLString_zero,
       Parameters = GLString_zero, GLArbToken.Hash = 0x49b1d4d2\<rparr>"
    by (simp add: endif_ArbHash_def table_simps)
  have slice: "bytes_of \<lparr>Chars = endif_registry, Length = 39\<rparr> =
      ''#\<newline>#endif // INCLUDE_OPENGL_GENERATED_H\<newline>''"
    by (simp add: endif_registry_def scan_simps)
  show "GLToken.Hash t = 0xfb08e2e7 \<Longrightarrow> define_body endif_ArbHash t = Inr []"
    "GLToken.Hash t = 0x550f607b \<Longrightarrow> define_body endif_ArbHash t = Inr []"
    "GLToken.Hash t = 0x49b1d4d2 \<Longrightarrow>
     define_body endif_ArbHash t = Inr ''#\<newline>#endif // INCLUDE_OPENGL_GENERATED_H\<newline>''"
    "GLToken.Hash t = 0xfe4ab190 \<Longrightarrow> typedef_body endif_ArbHash t = Inr []"
    by (simp_all add: define_body_def typedef_body_def endif_lookup entry slice)
qed

lemma endif_emit:
  assumes "qsort_contract sorter"
  shows "emit_header (example_settings False ts) endif_ArbHash
           (sorter TokenComparer (FunctionsHash (endif_scanned g))) 1
           (sorter TokenComparer (DefinesHash (endif_scanned g))) 3 =
         Inr (endif_output ts)"
proof -
  let ?F = "sorter TokenComparer (FunctionsHash (endif_scanned g))"
  let ?D = "sorter TokenComparer (DefinesHash (endif_scanned g))"
  note hs = endif_sorted [OF assms, of g]
  have three: "3 \<le> TOKEN_HASH_SIZE"
    by (simp add: TOKEN_HASH_SIZE_def)
  have lenF: "length ?F = TOKEN_HASH_SIZE"
    using arg_cong [OF hs(1), of length] three by simp
  have lenD: "length ?D = TOKEN_HASH_SIZE"
    using arg_cong [OF hs(2), of length] three by simp
  have F0: "GLToken.Hash (?F ! 0) = 0xfe4ab190"
    using arg_cong [OF hs(1), of "\<lambda>xs. xs ! 0"] lenF three by simp
  have D0: "GLToken.Hash (?D ! 0) = 0xfb08e2e7" and D1: "GLToken.Hash (?D ! Suc 0) = 0x550f607b"
    and D2: "GLToken.Hash (?D ! Suc (Suc 0)) = 0x49b1d4d2"
    using arg_cong [OF hs(2), of "\<lambda>xs. xs ! 0"] arg_cong [OF hs(2), of "\<lambda>xs. xs ! Suc 0"]
      arg_cong [OF hs(2), of "\<lambda>xs. xs ! Suc (Suc 0)"] lenD three by simp_all
  have dlines: "emit_loop (define_body endif_ArbHash) ?D 3 0 =
      Inr ''#\<newline>#endif // INCLUDE_OPENGL_GENERATED_H\<newline>''"
    using lenD three
    by (simp add: emit_loop_three endif_define_lines D0 D1 D2 bind_fault_def)
  have typedefs: "emit_loop (typedef_body endif_ArbHash) ?F 1 0 = Inr []"
    using lenF three
    by (simp add: emit_loop_one endif_define_lines F0 del: One_nat_def)
  show ?thesis
    unfolding emit_header_def endif_output_def
    by (simp add: example_fields dlines typedefs bind_fault_def del: One_nat_def)
qed

lemma endif_run:
  assumes "qsort_contract (qsort w)" and "files w = endif_files"
    and "writable w ''gl.generated.h''"
  shows "GenerateOpenGLHeader w (example_settings False ts) =
         Inr \<lparr>Success = 0, Written = Some (endif_output ts), Errors = [],
              Printed = [completed_message 1 3 1]\<rparr>"
proof -
  have read: "ReadMultiFiles endif_files [''gl.h''] = (Some endif_registry, [])"
    by (simp add: ReadMultiFiles_def endif_files_def endif_registry_def)
  have counts: "FunctionCount (endif_scanned g) = 1" "DefinesCount (endif_scanned g) = 3"
      "Stderr (endif_scanned g) = []" for g
    by (simp_all add: endif_scanned_def)
  have source: "((files w)(''gl.generated.h'' \<mapsto> [])) ''main.c'' = Some endif_source"
    by (simp add: assms(2) endif_files_def)
  note scanned = endif_ParseFiles [of "(files w)(''gl.generated.h'' \<mapsto> [])", OF source]
  have "generate w (example_settings False ts) endif_registry [] =
      Inr \<lparr>Success = 0, Written = Some (endif_output ts), Errors = [],
           Printed = [completed_message 1 3 1]\<rparr>"
    unfolding generate_def
    by (simp add: endif_parse_registry bind_fault_def example_fields
        scanned counts endif_emit [OF assms(1)]
        del: ParseFiles.simps fun_upd_apply One_nat_def)
  then show ?thesis
    using assms(2,3) by (simp add: GenerateOpenGLHeader_def read example_fields)
qed


section \<open>The include guard\<close>

lemma no_straddle_end:
  assumes "sublist xs (ys @ zs)" and "c \<notin> set xs" and "suffix [c] ys"
  shows "sublist xs ys \<or> sublist xs zs"
proof -
  from assms(1) consider "sublist xs ys" | "sublist xs zs"
    | xs1 xs2 where "xs = xs1 @ xs2" "suffix xs1 ys" "prefix xs2 zs"
    unfolding sublist_append by blast
  then show ?thesis
  proof cases
    case 3
    show ?thesis
    proof (cases "xs1 = []")
      case True
      with 3 have "prefix xs zs" by simp
      then show ?thesis by auto
    next
      case False
      with 3(2) have "last xs1 = last ys"
        by (auto simp add: suffix_def)
      moreover from assms(3) have "last ys = c"
        by (auto simp add: suffix_def)
      ultimately have "last xs1 = c" by simp
      with False have "c \<in> set xs1"
        by (metis last_in_set)
      with 3(1) assms(2) show ?thesis by simp
    qed
  qed auto
qed

lemma no_straddle_start:
  assumes "sublist xs (ys @ zs)" and "c \<notin> set xs" and "zs = [] \<or> hd zs = c"
  shows "sublist xs ys \<or> sublist xs zs"
proof -
  from assms(1) consider "sublist xs ys" | "sublist xs zs"
    | xs1 xs2 where "xs = xs1 @ xs2" "suffix xs1 ys" "prefix xs2 zs"
    unfolding sublist_append by blast
  then show ?thesis
  proof cases
    case 3
    show ?thesis
    proof (cases "xs2 = []")
      case True
      with 3 have "suffix xs ys" by simp
      then show ?thesis by auto
    next
      case False
      with 3(3) have "zs \<noteq> []" and "hd xs2 = hd zs"
        by (auto simp add: prefix_def)
      with assms(3) have "hd xs2 = c" by simp
      with False have "c \<in> set xs2"
        by (metis hd_in_set)
      with 3(1) assms(2) show ?thesis by simp
    qed
  qed auto
qed

lemma needle_in_plain_output:
  assumes "sublist N (Generated_guard ts @ Generated_baseline @ dlines @ Spacer @
                      Generated_debugproc @ typedefs)"
    and "CHR 0x0A \<notin> set N"
  shows "sublist N (Generated_guard ts) \<or> sublist N Generated_baseline \<or> sublist N dlines \<or>
         sublist N Spacer \<or> sublist N Generated_debugproc \<or> sublist N typedefs"
proof -
  have lastG: "suffix [CHR 0x0A] (Generated_guard ts)"
    unfolding Generated_guard_def by (intro suffix_appendI) (simp add: suffix_def)
  have lastB: "suffix [CHR 0x0A] Generated_baseline"
    unfolding Generated_baseline_def by (intro suffix_appendI) (simp add: suffix_def)
  have hdS: "Spacer @ Generated_debugproc @ typedefs = [] \<or>
      hd (Spacer @ Generated_debugproc @ typedefs) = CHR 0x0A"
    by (simp add: Spacer_def)
  have lastS: "suffix [CHR 0x0A] Spacer"
    by (simp add: Spacer_def suffix_def)
  have lastD: "suffix [CHR 0x0A] Generated_debugproc"
    unfolding Generated_debugproc_def suffix_def
    by (rule exI [of _ "butlast ''typedef void (APIENTRY *GLDEBUGPROC)(GLenum source,GLenum type,GLuint id,GLenum severity,GLsizei length,const GLchar *message,const void *userParam);\<newline>''"]) simp
  from no_straddle_end [OF assms lastG] show ?thesis
  proof
    assume "sublist N (Generated_baseline @ dlines @ Spacer @ Generated_debugproc @ typedefs)"
    from no_straddle_end [OF this assms(2) lastB] show ?thesis
    proof
      assume "sublist N (dlines @ Spacer @ Generated_debugproc @ typedefs)"
      from no_straddle_start [OF this assms(2) hdS] show ?thesis
      proof
        assume "sublist N (Spacer @ Generated_debugproc @ typedefs)"
        from no_straddle_end [OF this assms(2) lastS] show ?thesis
        proof
          assume "sublist N (Generated_debugproc @ typedefs)"
          from no_straddle_end [OF this assms(2) lastD] show ?thesis
            by blast
        qed simp
      qed simp
    qed simp
  qed simp
qed

lemma decimal_digits: "CHR ''#'' \<notin> set (decimal n)"
proof (induction n rule: decimal.induct)
  case (1 n)
  have digit: "char_of (48 + d) \<noteq> CHR ''#''" if "d < 10" for d :: nat
  proof
    assume "char_of (48 + d) = CHR ''#''"
    then have "of_char (char_of (48 + d) :: char) = (of_char CHR ''#'' :: nat)"
      by simp
    with that show False
      by simp
  qed
  show ?case
  proof (cases "n < 10")
    case True
    with digit [of n] show ?thesis
      by (subst decimal.simps) simp
  next
    case False
    with "1.IH" digit [of "n mod 10"] show ?thesis
      by (subst decimal.simps) simp
  qed
qed

lemma guard_has_no_closing_line:
  "\<not> sublist ''#endif // INCLUDE_OPENGL_GENERATED_H'' (Generated_guard ts)"
proof
  let ?N = "''#endif // INCLUDE_OPENGL_GENERATED_H''"
  let ?A = "''#ifndef INCLUDE_OPENGL_GENERATED_H\<newline>#define INCLUDE_OPENGL_GENERATED_H\<newline>\<newline>''"
  let ?C = "''// NOTE: This file is generated automatically. Do not edit.\<newline>// @GENERATED: '' @
            decimal (unat ts) @ ''\<newline>\<newline>''"
  assume "sublist ?N (Generated_guard ts)"
  then have "sublist ?N (?A @ ?C)"
    by (simp add: Generated_guard_def)
  then have "sublist ?N ?A \<or> sublist ?N ?C"
    by (rule no_straddle_end [where c = "CHR 0x0A"]) (simp_all add: suffix_def)
  moreover have "\<not> sublist ?N ?A"
    by code_simp
  moreover have "\<not> sublist ?N ?C"
  proof
    assume "sublist ?N ?C"
    then have "CHR ''#'' \<in> set ?C"
      by (rule sublist_needs_chars) simp
    then show False
      using decimal_digits [of "unat ts"] by simp
  qed
  ultimately show False
    by blast
qed

lemma fixed_blocks_have_no_closing_line:
  "\<not> sublist ''#endif // INCLUDE_OPENGL_GENERATED_H'' Generated_baseline"
  "\<not> sublist ''#endif // INCLUDE_OPENGL_GENERATED_H'' Spacer"
  "\<not> sublist ''#endif // INCLUDE_OPENGL_GENERATED_H'' Generated_debugproc"
proof -
  have slash: "CHR ''/'' \<notin> set Generated_baseline" "CHR ''/'' \<notin> set Spacer"
      "CHR ''/'' \<notin> set Generated_debugproc"
    by (simp_all add: Generated_baseline_def Spacer_def Generated_debugproc_def)
  have "CHR ''/'' \<in> set ys" if "sublist ''#endif // INCLUDE_OPENGL_GENERATED_H'' ys" for ys
    using that by (rule sublist_needs_chars) simp
  with slash show
    "\<not> sublist ''#endif // INCLUDE_OPENGL_GENERATED_H'' Generated_baseline"
    "\<not> sublist ''#endif // INCLUDE_OPENGL_GENERATED_H'' Spacer"
    "\<not> sublist ''#endif // INCLUDE_OPENGL_GENERATED_H'' Generated_debugproc"
    by blast+
qed

lemma closing_line_from_registry:
  assumes "sublist ''#endif // INCLUDE_OPENGL_GENERATED_H''
             (Generated_guard ts @ Generated_baseline @ dlines @ Spacer @ Generated_debugproc @
              typedefs)"
  shows "sublist ''#endif // INCLUDE_OPENGL_GENERATED_H'' dlines \<or>
         sublist ''#endif // INCLUDE_OPENGL_GENERATED_H'' typedefs"
proof -
  from assms have
    "sublist ''#endif // INCLUDE_OPENGL_GENERATED_H'' (Generated_guard ts) \<or>
     sublist ''#endif // INCLUDE_OPENGL_GENERATED_H'' Generated_baseline \<or>
     sublist ''#endif // INCLUDE_OPENGL_GENERATED_H'' dlines \<or>
     sublist ''#endif // INCLUDE_OPENGL_GENERATED_H'' Spacer \<or>
     sublist ''#endif // INCLUDE_OPENGL_GENERATED_H'' Generated_debugproc \<or>
     sublist ''#endif // INCLUDE_OPENGL_GENERATED_H'' typedefs"
    by (rule needle_in_plain_output) simp
  with guard_has_no_closing_line [of ts] fixed_blocks_have_no_closing_line show ?thesis
    by blast
qed

text \<open>
  C10 (amended). The output of every successful run begins with the two include-guard
  lines \<^verbatim>\<open>#ifndef INCLUDE_OPENGL_GENERATED_H\<close> and \<^verbatim>\<open>#define INCLUDE_OPENGL_GENERATED_H\<close>.
  The generator writes the closing line \<^verbatim>\<open>#endif // INCLUDE_OPENGL_GENERATED_H\<close> itself
  only as the last line of the boilerplate: with boilerplate enabled the output ends with
  it.  With boilerplate disabled nothing is written behind the function-pointer type
  aliases: the output is the guard and the timestamp comment, the baseline type aliases,
  the registry lines of the macros, the spacer, the debug callback alias and the type
  aliases of the functions, and the text of the closing line occurs in it only inside the
  block of copied registry lines or inside the block of type aliases built from the
  registry.
\<close>

theorem include_guard_closed_only_with_boilerplate:
  assumes "ReadMultiFiles (files w) (Headers Settings) = (Some Data, printed)"
    and "parse_registry Data calloc_GLArbToken 0 = Inr (ArbHash, ArbTokenCount)"
    and "ParseFiles ((files w)(Output Settings \<mapsto> [])) (Inputs Settings) ArbHash Settings
           (seeded_state (uninit w) printed) = Inr st"
    and "GenerateOpenGLHeader w Settings = Inr r" and "Success r = 0"
  shows "\<exists>out dlines typedefs.
           Written r = Some out \<and>
           prefix (''#ifndef INCLUDE_OPENGL_GENERATED_H\<newline>'' @
                   ''#define INCLUDE_OPENGL_GENERATED_H\<newline>'') out \<and>
           emit_loop (define_body ArbHash) (qsort w TokenComparer (DefinesHash st))
             (DefinesCount st) 0 = Inr dlines \<and>
           emit_loop (typedef_body ArbHash) (qsort w TokenComparer (FunctionsHash st))
             (FunctionCount st) 0 = Inr typedefs \<and>
           (Boilerplate Settings \<longrightarrow>
              suffix ''#endif // INCLUDE_OPENGL_GENERATED_H\<newline>'' out) \<and>
           (\<not> Boilerplate Settings \<longrightarrow>
              out = Generated_guard (WriteTimestamp Settings) @ Generated_baseline @ dlines @
                    Spacer @ Generated_debugproc @ typedefs \<and>
              (sublist ''#endif // INCLUDE_OPENGL_GENERATED_H'' out \<longrightarrow>
                 sublist ''#endif // INCLUDE_OPENGL_GENERATED_H'' dlines \<or>
                 sublist ''#endif // INCLUDE_OPENGL_GENERATED_H'' typedefs))"
proof -
  let ?P = "case Prefix Settings of None \<Rightarrow> [] | Some p \<Rightarrow> printf_str p"
  from GenerateOpenGLHeader_generated [OF assms(4,5,1)]
  have "generate w Settings Data printed = Inr r" .
  from generate_emitted [OF assms(2,3) this] obtain out where
    emitted: "emit_header Settings ArbHash
                (qsort w TokenComparer (FunctionsHash st)) (FunctionCount st)
                (qsort w TokenComparer (DefinesHash st)) (DefinesCount st) = Inr out"
    and written: "Written r = Some out"
    by blast
  from emit_header_parts [OF emitted] obtain dlines typedefs boilerplate where
    dl: "emit_loop (define_body ArbHash) (qsort w TokenComparer (DefinesHash st))
           (DefinesCount st) 0 = Inr dlines"
    and td: "emit_loop (typedef_body ArbHash) (qsort w TokenComparer (FunctionsHash st))
           (FunctionCount st) 0 = Inr typedefs"
    and bp: "if Boilerplate Settings
             then emit_boilerplate ?P ArbHash (qsort w TokenComparer (FunctionsHash st))
                    (FunctionCount st) = Inr boilerplate
             else boilerplate = []"
    and out: "out = Generated_guard (WriteTimestamp Settings) @
                (if Boilerplate Settings then Generated_version ?P else []) @
                Generated_baseline @ dlines @ Spacer @ Generated_debugproc @ typedefs @
                boilerplate"
    by blast
  have begins: "prefix (''#ifndef INCLUDE_OPENGL_GENERATED_H\<newline>'' @
      ''#define INCLUDE_OPENGL_GENERATED_H\<newline>'') out"
    unfolding out by (rule Generated_guard_begins)
  have ends: "suffix ''#endif // INCLUDE_OPENGL_GENERATED_H\<newline>'' out" if "Boilerplate Settings"
  proof -
    from that bp have "suffix ''#endif // INCLUDE_OPENGL_GENERATED_H\<newline>'' boilerplate"
      by (auto intro: boilerplate_ends)
    then show ?thesis
      unfolding out by (intro suffix_appendI)
  qed
  have plain: "out = Generated_guard (WriteTimestamp Settings) @ Generated_baseline @ dlines @
      Spacer @ Generated_debugproc @ typedefs" if "\<not> Boilerplate Settings"
    using that bp out by simp
  have closing: "sublist ''#endif // INCLUDE_OPENGL_GENERATED_H'' dlines \<or>
      sublist ''#endif // INCLUDE_OPENGL_GENERATED_H'' typedefs"
    if "\<not> Boilerplate Settings" and "sublist ''#endif // INCLUDE_OPENGL_GENERATED_H'' out"
    using that(2) unfolding plain [OF that(1)] by (rule closing_line_from_registry)
  show ?thesis
    using written begins dl td ends plain closing by blast
qed

theorem include_guard_closed_only_with_boilerplate_witness:
  "GenerateOpenGLHeader (example_world 0) (example_settings True 0) =
     Inr \<lparr>Success = 0, Written = Some (example_output True 0), Errors = [],
          Printed = [completed_message 2 2 2]\<rparr> \<and>
   prefix (''#ifndef INCLUDE_OPENGL_GENERATED_H\<newline>'' @
           ''#define INCLUDE_OPENGL_GENERATED_H\<newline>'') (example_output True 0) \<and>
   suffix ''#endif // INCLUDE_OPENGL_GENERATED_H\<newline>'' (example_output True 0) \<and>
   GenerateOpenGLHeader (example_world 0) (example_settings False 0) =
     Inr \<lparr>Success = 0, Written = Some (example_output False 0), Errors = [],
          Printed = [completed_message 2 2 2]\<rparr> \<and>
   prefix (''#ifndef INCLUDE_OPENGL_GENERATED_H\<newline>'' @
           ''#define INCLUDE_OPENGL_GENERATED_H\<newline>'') (example_output False 0) \<and>
   \<not> sublist ''#endif // INCLUDE_OPENGL_GENERATED_H'' (example_output False 0)"
proof -
  let ?r = "\<lambda>b. \<lparr>Success = 0, Written = Some (example_output b 0), Errors = [],
                  Printed = [completed_message 2 2 2]\<rparr>"
  let ?g = "uninit (example_world 0)"
  have run: "GenerateOpenGLHeader (example_world 0) (example_settings b 0) = Inr (?r b)" for b
    by (rule example_world_run)
  have read: "ReadMultiFiles (files (example_world 0)) (Headers (example_settings b 0)) =
      (Some example_registry, [])" for b
    by (simp add: example_fields example_world_def example_read)
  have sorter: "qsort (example_world 0) = sort_by"
    by (simp add: example_world_def)
  note blocks = example_blocks [OF sort_by_contract, of ?g]
  note facts = include_guard_closed_only_with_boilerplate
    [OF read example_parse_registry example_world_scanned run, unfolded sorter]
  have counts: "DefinesCount (example_scanned ?g) = 2" "FunctionCount (example_scanned ?g) = 2"
    by (simp_all add: example_scanned_def)
  from facts [of True] have with_boilerplate:
    "prefix (''#ifndef INCLUDE_OPENGL_GENERATED_H\<newline>'' @
             ''#define INCLUDE_OPENGL_GENERATED_H\<newline>'') (example_output True 0)"
    "suffix ''#endif // INCLUDE_OPENGL_GENERATED_H\<newline>'' (example_output True 0)"
    by (simp_all add: example_fields)
  have short: "\<not> sublist ''#endif // INCLUDE_OPENGL_GENERATED_H''
        ''#define GL_MAJOR_VERSION 0x821B\<newline>''"
      "\<not> sublist ''#endif // INCLUDE_OPENGL_GENERATED_H''
        ''typedef  void (APIENTRYP PFNGLCLEARPROC)  (GLbitfield mask);\<newline>''"
    by code_simp+
  from facts [of False] have plain:
    "prefix (''#ifndef INCLUDE_OPENGL_GENERATED_H\<newline>'' @
             ''#define INCLUDE_OPENGL_GENERATED_H\<newline>'') (example_output False 0)"
    "\<not> sublist ''#endif // INCLUDE_OPENGL_GENERATED_H'' (example_output False 0)"
    using short by (auto simp add: example_fields counts blocks)
  from run with_boilerplate plain show ?thesis
    by simp
qed

text \<open>
  The registry can supply the closing line.  In the second run the macro stored under the
  hash of \<^verbatim>\<open>#endif\<close> has a line that spans the whole registry; the source token
  \<^verbatim>\<open>GL_ANCMPQC\<close> has the same hash and is accepted, and the line is copied into the
  output of a run without boilerplate.
\<close>

theorem registry_line_closes_guard:
  "Boilerplate (example_settings False 0) = False \<and>
   GenerateOpenGLHeader endif_world (example_settings False 0) =
     Inr \<lparr>Success = 0, Written = Some (endif_output 0), Errors = [],
          Printed = [completed_message 1 3 1]\<rparr> \<and>
   sublist ''\<newline>#endif // INCLUDE_OPENGL_GENERATED_H\<newline>'' (endif_output 0)"
proof -
  have "GenerateOpenGLHeader endif_world (example_settings False 0) =
     Inr \<lparr>Success = 0, Written = Some (endif_output 0), Errors = [],
          Printed = [completed_message 1 3 1]\<rparr>"
    by (rule endif_run) (simp_all add: endif_world_def sort_by_contract)
  moreover have "sublist ''\<newline>#endif // INCLUDE_OPENGL_GENERATED_H\<newline>''
      (Generated_guard 0 @ Generated_baseline @
       (''#'' @ ''\<newline>#endif // INCLUDE_OPENGL_GENERATED_H\<newline>'' @
        (Spacer @ Generated_debugproc)))"
    by (intro sublist_behind sublist_appendI)
  then have "sublist ''\<newline>#endif // INCLUDE_OPENGL_GENERATED_H\<newline>'' (endif_output 0)"
    by (simp add: endif_output_def)
  ultimately show ?thesis
    by (simp add: example_fields)
qed


section \<open>The seeded symbols\<close>

lemma filter_update_length: "length (filter P (xs[i := x])) \<le> Suc (length (filter P xs))"
proof (induction xs arbitrary: i)
  case Nil
  then show ?case by simp
next
  case (Cons y ys)
  then show ?case
    by (cases i) (auto intro: le_SucI)
qed

lemma AddToken_populated:
  "populated (snd (AddToken TokenHash Token)) \<le> Suc (populated TokenHash)"
  by (simp add: AddToken_def Let_def populated_def filter_update_length split: prod.splits)

lemma AddToken_keeps:
  assumes "length TokenHash = TOKEN_HASH_SIZE" and "h \<noteq> 0"
    and "h \<in> GLToken.Hash ` set TokenHash"
  shows "h \<in> GLToken.Hash ` set (snd (AddToken TokenHash Token))"
proof (cases "find (\<lambda>i. GLToken.Hash (TokenHash ! i) = 0) (probe_order (GLToken.Hash Token))")
  case None
  with assms show ?thesis
    by (simp add: AddToken_eq)
next
  case (Some i)
  from find_SomeD [OF Some] have empty: "GLToken.Hash (TokenHash ! i) = 0"
    by simp
  from assms(3) obtain j where j: "j < length TokenHash" "GLToken.Hash (TokenHash ! j) = h"
    by (auto simp add: in_set_conv_nth)
  with empty assms(2) have "j \<noteq> i"
    by auto
  from j(1) have "TokenHash[i := Token] ! j \<in> set (TokenHash[i := Token])"
    by (intro nth_mem) simp
  moreover from \<open>j \<noteq> i\<close> j(2) have "GLToken.Hash (TokenHash[i := Token] ! j) = h"
    by simp
  ultimately have "h \<in> GLToken.Hash ` set (TokenHash[i := Token])"
    by (metis imageI)
  with Some assms(1) show ?thesis
    by (simp add: AddToken_eq)
qed

lemma AddToken_keeps_all:
  assumes "length TokenHash = TOKEN_HASH_SIZE" and "0 \<notin> S"
    and "S \<subseteq> GLToken.Hash ` set TokenHash"
  shows "S \<subseteq> GLToken.Hash ` set (snd (AddToken TokenHash Token))"
proof
  fix h
  assume "h \<in> S"
  with assms(2,3) have "h \<noteq> 0" and "h \<in> GLToken.Hash ` set TokenHash"
    by auto
  with assms(1) show "h \<in> GLToken.Hash ` set (snd (AddToken TokenHash Token))"
    by (rule AddToken_keeps)
qed

lemma record_function_keeps:
  assumes "keeps_seeds Fs Ds st" and "0 \<notin> Fs"
  shows "keeps_seeds Fs Ds (record_function ArbHash Settings Token st)"
proof -
  from assms(1) have len: "length (FunctionsHash st) = TOKEN_HASH_SIZE"
    and sub: "Fs \<subseteq> GLToken.Hash ` set (FunctionsHash st)"
    and cnt: "populated (FunctionsHash st) \<le> FunctionCount st"
    by (simp_all add: keeps_seeds_def)
  note k = AddToken_keeps_all [OF len assms(2) sub, of Token]
  note p = AddToken_populated [of "FunctionsHash st" Token]
  show ?thesis
    using assms(1) k p cnt
    by (simp add: record_function_def keeps_seeds_def AddToken_length split: prod.splits)
qed

lemma record_define_keeps:
  assumes "keeps_seeds Fs Ds st" and "0 \<notin> Ds"
  shows "keeps_seeds Fs Ds (record_define ArbHash Settings Token st)"
proof -
  from assms(1) have len: "length (DefinesHash st) = TOKEN_HASH_SIZE"
    and sub: "Ds \<subseteq> GLToken.Hash ` set (DefinesHash st)"
    and cnt: "populated (DefinesHash st) \<le> DefinesCount st"
    by (simp_all add: keeps_seeds_def)
  note k = AddToken_keeps_all [OF len assms(2) sub, of Token]
  note p = AddToken_populated [of "DefinesHash st" Token]
  show ?thesis
    using assms(1) k p cnt
    by (simp add: record_define_def keeps_seeds_def AddToken_length split: prod.splits)
qed

lemma ParseFile_token_keeps:
  assumes "keeps_seeds Fs Ds st" and "0 \<notin> Fs" and "0 \<notin> Ds"
    and "ParseFile_token ArbHash Settings Token st = Inr st'"
  shows "keeps_seeds Fs Ds st'"
  using assms
  by (auto simp add: ParseFile_token_def Let_def record_function_keeps record_define_keeps
      split: sum.splits if_splits)

lemma ParseFile_loop_keeps:
  "keeps_seeds Fs Ds st \<Longrightarrow> 0 \<notin> Fs \<Longrightarrow> 0 \<notin> Ds \<Longrightarrow>
   ParseFile_loop ArbHash Settings At st = Inr st' \<Longrightarrow> keeps_seeds Fs Ds st'"
proof (induction ArbHash Settings At st rule: ParseFile_loop.induct)
  case (1 ArbHash Settings At st)
  show ?case
  proof (cases "deref At \<noteq> NUL")
    case False
    with "1.prems" show ?thesis
      by (simp add: ParseFile_loop.simps [of ArbHash Settings At st])
  next
    case True
    with "1.prems"(4) obtain x where
      x: "ParseFile_token ArbHash Settings (fst (ParseToken At)) st = Inr x"
      and rest: "ParseFile_loop ArbHash Settings (snd (ParseToken At)) x = Inr st'"
      by (auto simp add: ParseFile_loop.simps [of ArbHash Settings At st] split: sum.splits)
    from "1.prems"(1,2,3) x have "keeps_seeds Fs Ds x"
      by (rule ParseFile_token_keeps)
    from "1.IH" [OF True x this "1.prems"(2,3) rest] show ?thesis .
  qed
qed

lemma ParseFile_keeps:
  assumes "keeps_seeds Fs Ds st" and "0 \<notin> Fs" and "0 \<notin> Ds"
    and "ParseFile fs Filename ArbHash Settings st = Inr st'"
  shows "keeps_seeds Fs Ds st'"
proof -
  have k: "keeps_seeds Fs Ds (st\<lparr>Stderr := p\<rparr>)" for p
    using assms(1) by (simp add: keeps_seeds_def)
  show ?thesis
  proof (cases "ReadEntireFile fs Filename")
    case (Pair Data printed)
    show ?thesis
    proof (cases Data)
      case None
      with Pair assms(4) k show ?thesis
        by (auto simp add: ParseFile_def)
    next
      case (Some bytes)
      with Pair assms(4) have
        "ParseFile_loop ArbHash Settings bytes (st\<lparr>Stderr := Stderr st @ printed\<rparr>) = Inr st'"
        by (simp add: ParseFile_def)
      from ParseFile_loop_keeps [OF k assms(2,3) this] show ?thesis .
    qed
  qed
qed

lemma ParseFiles_keeps:
  "keeps_seeds Fs Ds st \<Longrightarrow> 0 \<notin> Fs \<Longrightarrow> 0 \<notin> Ds \<Longrightarrow>
   ParseFiles fs names ArbHash Settings st = Inr st' \<Longrightarrow> keeps_seeds Fs Ds st'"
proof (induction names arbitrary: st)
  case Nil
  then show ?case by simp
next
  case (Cons Filename rest)
  from Cons.prems(4) obtain x where
    x: "ParseFile fs Filename ArbHash Settings st = Inr x"
    and r: "ParseFiles fs rest ArbHash Settings x = Inr st'"
    by (auto simp add: bind_fault_def split: sum.splits)
  from Cons.prems(1,2,3) x have "keeps_seeds Fs Ds x"
    by (rule ParseFile_keeps)
  from Cons.IH [OF this Cons.prems(2,3) r] show ?case .
qed

lemma populated_calloc: "populated calloc_GLToken = 0"
  by (simp add: populated_def calloc_GLToken_def GLToken_zero_def)

lemma seeded_state_keeps:
  "keeps_seeds {0xfe4ab190} {0x550f607b, 0xfb08e2e7} (seeded_state g printed)"
proof -
  let ?F = "calloc_GLToken[4496 := seed_token (g ''glGetIntegerv'') 0xfe4ab190]"
  let ?D = "calloc_GLToken[123 := seed_token (g ''GL_MAJOR_VERSION'') 0x550f607b,
                           743 := seed_token (g ''GL_MINOR_VERSION'') 0xfb08e2e7]"
  have upd: "populated (T[i := x]) \<le> Suc (populated T)" for T i x
    unfolding populated_def by (rule filter_update_length)
  have "populated ?F \<le> 1"
    using upd [of calloc_GLToken 4496] by (simp add: populated_calloc)
  moreover have "populated (calloc_GLToken[123 := seed_token (g ''GL_MAJOR_VERSION'') 0x550f607b]) \<le> 1"
    using upd [of calloc_GLToken 123] by (simp add: populated_calloc)
  then have "populated ?D \<le> 2"
    using upd [of "calloc_GLToken[123 := seed_token (g ''GL_MAJOR_VERSION'') 0x550f607b]" 743
        "seed_token (g ''GL_MINOR_VERSION'') 0xfb08e2e7"]
    by linarith
  moreover have "0xfe4ab190 \<in> GLToken.Hash ` set ?F"
    by (rule nth_hash_mem [of 4496]) (simp_all add: table_simps seed_token_def del: One_nat_def)
  moreover have "0x550f607b \<in> GLToken.Hash ` set ?D"
    by (rule nth_hash_mem [of 123]) (simp_all add: table_simps seed_token_def del: One_nat_def)
  moreover have "0xfb08e2e7 \<in> GLToken.Hash ` set ?D"
    by (rule nth_hash_mem [of 743]) (simp_all add: table_simps seed_token_def del: One_nat_def)
  ultimately show ?thesis
    by (simp add: seeded_state_eq keeps_seeds_def table_simps)
qed

lemma populated_qsort:
  assumes "qsort_post TokenComparer TokenHash Sorted"
  shows "populated Sorted = populated TokenHash"
proof -
  from assms have "mset Sorted = mset TokenHash"
    by (simp add: qsort_post_def)
  then have "mset (filter (\<lambda>t. GLToken.Hash t \<noteq> 0) Sorted) =
      mset (filter (\<lambda>t. GLToken.Hash t \<noteq> 0) TokenHash)"
    by simp
  then show ?thesis
    unfolding populated_def by (rule mset_eq_length)
qed

lemma populated_slots_first:
  assumes "qsort_post TokenComparer TokenHash Sorted"
    and "j < length Sorted" and "GLToken.Hash (Sorted ! j) \<noteq> 0"
  shows "j < populated TokenHash"
proof -
  let ?P = "\<lambda>t. GLToken.Hash t \<noteq> 0"
  have "?P t" if "t \<in> set (take (Suc j) Sorted)" for t
  proof -
    from that obtain i where i: "i < Suc j" "i < length Sorted" "t = Sorted ! i"
      by (auto simp add: in_set_conv_nth)
    show ?thesis
    proof (cases "i = j")
      case True
      with i assms(3) show ?thesis by simp
    next
      case False
      with i(1) have "i < j" by simp
      with qsort_populated_first [OF assms(1) this assms(2)] assms(3) i(3) show ?thesis
        by auto
    qed
  qed
  then have "filter ?P (take (Suc j) Sorted) = take (Suc j) Sorted"
    by (simp add: filter_id_conv)
  moreover have "length (filter ?P (take (Suc j) Sorted)) \<le> length (filter ?P Sorted)"
    using arg_cong [OF append_take_drop_id [of "Suc j" Sorted], of "\<lambda>xs. length (filter ?P xs)"]
    by (simp del: append_take_drop_id)
  ultimately have "Suc j \<le> populated Sorted"
    using assms(2) by (simp add: populated_def)
  with populated_qsort [OF assms(1)] show ?thesis
    by simp
qed

lemma seed_slot_emitted:
  assumes "qsort_post TokenComparer TokenHash Sorted"
    and "h \<in> GLToken.Hash ` set TokenHash" and "h \<noteq> 0" and "populated TokenHash \<le> Count"
  shows "\<exists>j < Count. j < length Sorted \<and> GLToken.Hash (Sorted ! j) = h"
proof -
  from assms(1) have "set Sorted = set TokenHash"
    unfolding qsort_post_def by (metis mset_eq_setD)
  with assms(2) obtain t where "t \<in> set Sorted" and "GLToken.Hash t = h"
    by auto
  then obtain j where j: "j < length Sorted" "GLToken.Hash (Sorted ! j) = h"
    by (auto simp add: in_set_conv_nth)
  with assms(3) have "j < populated TokenHash"
    by (intro populated_slots_first [OF assms(1)]) simp_all
  with assms(4) have "j < Count"
    by simp
  with j show ?thesis
    by blast
qed

lemma emit_loop_chunk:
  assumes "emit_loop body Sorted Count Index = Inr emitted" and "Index \<le> j" and "j < Count"
  shows "\<exists>chunk. body (Sorted ! j) = Inr chunk \<and> sublist chunk emitted"
  using assms
proof (induction "j - Index" arbitrary: Index emitted)
  case 0
  then have "Index = j" by simp
  with "0.prems"(1,3) obtain written rest where
    "body (Sorted ! j) = Inr written" and "emitted = written @ rest"
    by (auto simp add: emit_loop.simps [of body Sorted Count j] bind_fault_def
        split: if_splits sum.splits)
  then show ?case
    by auto
next
  case (Suc n)
  then have less: "Index < Count" and next_le: "Index + 1 \<le> j" and n: "n = j - (Index + 1)"
    by simp_all
  with Suc.prems(1) obtain written rest where
    rest: "emit_loop body Sorted Count (Index + 1) = Inr rest" and "emitted = written @ rest"
    by (auto simp add: emit_loop.simps [of body Sorted Count Index] bind_fault_def
        split: if_splits sum.splits)
  from Suc.hyps(1) [OF n rest next_le Suc.prems(3)] \<open>emitted = written @ rest\<close>
  show ?case
    by (auto intro: sublist_behind)
qed

lemma seeds_emitted:
  assumes "qsort_contract (qsort w)"
    and "parse_registry Data calloc_GLArbToken 0 = Inr (ArbHash, ArbTokenCount)"
    and "generate w Settings Data printed = Inr r"
  shows "\<exists>st out.
           ParseFiles ((files w)(Output Settings \<mapsto> [])) (Inputs Settings) ArbHash Settings
             (seeded_state (uninit w) printed) = Inr st \<and>
           keeps_seeds {0xfe4ab190} {0x550f607b, 0xfb08e2e7} st \<and>
           Written r = Some out \<and>
           (\<forall>h \<in> {0x550f607b, 0xfb08e2e7}. \<exists>t chunk.
              GLToken.Hash t = h \<and> define_body ArbHash t = Inr chunk \<and> sublist chunk out) \<and>
           (\<exists>t chunk. GLToken.Hash t = 0xfe4ab190 \<and> typedef_body ArbHash t = Inr chunk \<and>
              sublist chunk out)"
proof -
  let ?fs = "(files w)(Output Settings \<mapsto> [])"
  from assms(2,3) obtain st where
    scan: "ParseFiles ?fs (Inputs Settings) ArbHash Settings (seeded_state (uninit w) printed) =
             Inr st"
    by (auto simp add: generate_def bind_fault_def split: sum.splits)
  from generate_emitted [OF assms(2) scan assms(3)] obtain out where
    emit: "emit_header Settings ArbHash
             (qsort w TokenComparer (FunctionsHash st)) (FunctionCount st)
             (qsort w TokenComparer (DefinesHash st)) (DefinesCount st) = Inr out"
    and written: "Written r = Some out"
    by blast
  let ?F = "qsort w TokenComparer (FunctionsHash st)"
  let ?D = "qsort w TokenComparer (DefinesHash st)"
  have kept: "keeps_seeds {0xfe4ab190} {0x550f607b, 0xfb08e2e7} st"
    by (rule ParseFiles_keeps [OF seeded_state_keeps _ _ scan]) simp_all
  then have cntF: "populated (FunctionsHash st) \<le> FunctionCount st"
    and cntD: "populated (DefinesHash st) \<le> DefinesCount st"
    and inF: "0xfe4ab190 \<in> GLToken.Hash ` set (FunctionsHash st)"
    and inD: "0x550f607b \<in> GLToken.Hash ` set (DefinesHash st)"
      "0xfb08e2e7 \<in> GLToken.Hash ` set (DefinesHash st)"
    by (simp_all add: keeps_seeds_def)
  from assms(1) have postF: "qsort_post TokenComparer (FunctionsHash st) ?F"
    and postD: "qsort_post TokenComparer (DefinesHash st) ?D"
    by (simp_all add: qsort_contract_def)
  from emit_header_parts [OF emit] obtain dlines typedefs boilerplate where
    d: "emit_loop (define_body ArbHash) ?D (DefinesCount st) 0 = Inr dlines"
    and t: "emit_loop (typedef_body ArbHash) ?F (FunctionCount st) 0 = Inr typedefs"
    and out: "out = Generated_guard (WriteTimestamp Settings) @
                (if Boilerplate Settings
                 then Generated_version (case Prefix Settings of None \<Rightarrow> [] | Some p \<Rightarrow> printf_str p)
                 else []) @
                Generated_baseline @ dlines @ Spacer @ Generated_debugproc @ typedefs @
                boilerplate"
    by blast
  have subd: "sublist dlines out"
    unfolding out by (intro sublist_behind sublist_before) simp
  have subt: "sublist typedefs out"
    unfolding out by (intro sublist_behind sublist_before) simp
  have macro: "\<exists>t chunk. GLToken.Hash t = h \<and> define_body ArbHash t = Inr chunk \<and> sublist chunk out"
    if "h \<in> GLToken.Hash ` set (DefinesHash st)" and "h \<noteq> 0" for h
  proof -
    from seed_slot_emitted [OF postD that cntD] obtain j where
      j: "j < DefinesCount st" "GLToken.Hash (?D ! j) = h"
      by blast
    from emit_loop_chunk [OF d _ j(1)] obtain chunk where
      chunk: "define_body ArbHash (?D ! j) = Inr chunk" and "sublist chunk dlines"
      by auto
    from this(2) subd have "sublist chunk out"
      by (rule sublist_order.order.trans)
    with chunk j(2) show ?thesis
      by blast
  qed
  have func: "\<exists>t chunk. GLToken.Hash t = h \<and> typedef_body ArbHash t = Inr chunk \<and> sublist chunk out"
    if "h \<in> GLToken.Hash ` set (FunctionsHash st)" and "h \<noteq> 0" for h
  proof -
    from seed_slot_emitted [OF postF that cntF] obtain j where
      j: "j < FunctionCount st" "GLToken.Hash (?F ! j) = h"
      by blast
    from emit_loop_chunk [OF t _ j(1)] obtain chunk where
      chunk: "typedef_body ArbHash (?F ! j) = Inr chunk" and "sublist chunk typedefs"
      by auto
    from this(2) subt have "sublist chunk out"
      by (rule sublist_order.order.trans)
    with chunk j(2) show ?thesis
      by blast
  qed
  from macro [OF inD(1)] macro [OF inD(2)] func [OF inF] written scan kept show ?thesis
    by simp
qed

lemma define_chunk:
  assumes "define_body ArbHash t = Inr chunk" and "GetToken ArbHash (GLToken.Hash t) = Some i"
  shows "chunk = bytes_of \<lparr>Chars = Chars (Line (ArbHash ! i)),
                          Length = Length (Line (ArbHash ! i)) + 1\<rparr>"
  using assms by (auto simp add: define_body_def split: if_splits)

lemma typedef_chunk:
  assumes "typedef_body ArbHash t = Inr chunk" and "GetToken ArbHash (GLToken.Hash t) = Some i"
  shows "chunk = ''typedef '' @ printf_slice (ReturnType (ArbHash ! i)) @ '' (APIENTRYP PFN'' @
                 printf_str (UpperCase (FunctionName (ArbHash ! i))) @ ''PROC) '' @
                 printf_slice (Parameters (ArbHash ! i)) @ [CHR 0x0A]"
  using assms by (auto simp add: typedef_body_def sprintf_512_def Let_def split: if_splits)

text \<open>
  C7 (amended). Before any input file is scanned the macro result set holds the hashes of
  \<^verbatim>\<open>GL_MAJOR_VERSION\<close> and \<^verbatim>\<open>GL_MINOR_VERSION\<close> and the function result set the hash of
  \<^verbatim>\<open>glGetIntegerv\<close>, whatever the inputs are, and they are still there after the scan.  In
  every successful run each of the three whose hash the registry table holds is declared
  in the output: the registry line of the macro (with the byte behind it), or the
  function-pointer type alias of the function, is part of the output, also when no input
  file names the symbol.
\<close>

theorem seeds_declared_when_registry_has_them:
  assumes "qsort_contract (qsort w)"
    and "ReadMultiFiles (files w) (Headers Settings) = (Some Data, printed)"
    and "parse_registry Data calloc_GLArbToken 0 = Inr (ArbHash, ArbTokenCount)"
    and "GenerateOpenGLHeader w Settings = Inr r" and "Success r = 0"
  shows "(\<forall>name \<in> {''GL_MAJOR_VERSION'', ''GL_MINOR_VERSION''}.
            GetStringHash \<lparr>Chars = name, Length = strlen name\<rparr> \<in>
              GLToken.Hash ` set (DefinesHash (seeded_state (uninit w) printed))) \<and>
         GetStringHash \<lparr>Chars = ''glGetIntegerv'', Length = strlen ''glGetIntegerv''\<rparr> \<in>
           GLToken.Hash ` set (FunctionsHash (seeded_state (uninit w) printed)) \<and>
         (\<exists>st out.
            ParseFiles ((files w)(Output Settings \<mapsto> [])) (Inputs Settings) ArbHash Settings
              (seeded_state (uninit w) printed) = Inr st \<and>
            Written r = Some out \<and>
            (\<forall>name \<in> {''GL_MAJOR_VERSION'', ''GL_MINOR_VERSION''}.
               GetStringHash \<lparr>Chars = name, Length = strlen name\<rparr> \<in>
                 GLToken.Hash ` set (DefinesHash st) \<and>
               (\<forall>i. GetToken ArbHash (GetStringHash \<lparr>Chars = name, Length = strlen name\<rparr>) =
                      Some i \<longrightarrow>
                    sublist (bytes_of \<lparr>Chars = Chars (Line (ArbHash ! i)),
                                       Length = Length (Line (ArbHash ! i)) + 1\<rparr>) out)) \<and>
            GetStringHash \<lparr>Chars = ''glGetIntegerv'', Length = strlen ''glGetIntegerv''\<rparr> \<in>
              GLToken.Hash ` set (FunctionsHash st) \<and>
            (\<forall>i. GetToken ArbHash
                   (GetStringHash \<lparr>Chars = ''glGetIntegerv'', Length = strlen ''glGetIntegerv''\<rparr>) =
                   Some i \<longrightarrow>
                 sublist (''typedef '' @ printf_slice (ReturnType (ArbHash ! i)) @
                          '' (APIENTRYP PFN'' @
                          printf_str (UpperCase (FunctionName (ArbHash ! i))) @ ''PROC) '' @
                          printf_slice (Parameters (ArbHash ! i)) @ [CHR 0x0A]) out))"
proof -
  from seeded_state_keeps [of "uninit w" printed]
  have before: "0x550f607b \<in> GLToken.Hash ` set (DefinesHash (seeded_state (uninit w) printed))"
    "0xfb08e2e7 \<in> GLToken.Hash ` set (DefinesHash (seeded_state (uninit w) printed))"
    "0xfe4ab190 \<in> GLToken.Hash ` set (FunctionsHash (seeded_state (uninit w) printed))"
    by (simp_all add: keeps_seeds_def)
  from GenerateOpenGLHeader_generated [OF assms(4,5,2)]
  have "generate w Settings Data printed = Inr r" .
  from seeds_emitted [OF assms(1,3) this] obtain st out where
    scan: "ParseFiles ((files w)(Output Settings \<mapsto> [])) (Inputs Settings) ArbHash Settings
             (seeded_state (uninit w) printed) = Inr st"
    and kept: "keeps_seeds {0xfe4ab190} {0x550f607b, 0xfb08e2e7} st"
    and written: "Written r = Some out"
    and macros: "\<forall>h \<in> {0x550f607b, 0xfb08e2e7}. \<exists>t chunk.
        GLToken.Hash t = h \<and> define_body ArbHash t = Inr chunk \<and> sublist chunk out"
    and func: "\<exists>t chunk. GLToken.Hash t = 0xfe4ab190 \<and> typedef_body ArbHash t = Inr chunk \<and>
        sublist chunk out"
    by blast
  from kept have after: "0x550f607b \<in> GLToken.Hash ` set (DefinesHash st)"
    "0xfb08e2e7 \<in> GLToken.Hash ` set (DefinesHash st)"
    "0xfe4ab190 \<in> GLToken.Hash ` set (FunctionsHash st)"
    by (simp_all add: keeps_seeds_def)
  have macro: "sublist (bytes_of \<lparr>Chars = Chars (Line (ArbHash ! i)),
        Length = Length (Line (ArbHash ! i)) + 1\<rparr>) out"
    if "h \<in> {0x550f607b, 0xfb08e2e7}" and "GetToken ArbHash h = Some i" for h i
  proof -
    from macros that(1) obtain t chunk where
      "GLToken.Hash t = h" "define_body ArbHash t = Inr chunk" "sublist chunk out"
      by blast
    with define_chunk [of ArbHash t chunk i] that(2) show ?thesis
      by simp
  qed
  have fptr: "sublist (''typedef '' @ printf_slice (ReturnType (ArbHash ! i)) @
        '' (APIENTRYP PFN'' @ printf_str (UpperCase (FunctionName (ArbHash ! i))) @ ''PROC) '' @
        printf_slice (Parameters (ArbHash ! i)) @ [CHR 0x0A]) out"
    if "GetToken ArbHash 0xfe4ab190 = Some i" for i
  proof -
    from func obtain t chunk where
      "GLToken.Hash t = 0xfe4ab190" "typedef_body ArbHash t = Inr chunk" "sublist chunk out"
      by blast
    with typedef_chunk [of ArbHash t chunk i] that show ?thesis
      by simp
  qed
  show ?thesis
    using before after scan written macro fptr
    by (simp add: seed_hashes) blast
qed

lemma baseline_names_no_seed:
  "\<not> sublist ''glGetIntegerv'' Generated_baseline"
  "\<not> sublist ''glGetIntegerv'' Generated_debugproc"
  by code_simp+

lemma example_plain_output:
  "example_output False 0 =
     Generated_guard 0 @ Generated_baseline @ ''#define GL_MAJOR_VERSION 0x821B\<newline>'' @
     Spacer @ Generated_debugproc @
     ''typedef  void (APIENTRYP PFNGLCLEARPROC)  (GLbitfield mask);\<newline>''"
  by (simp add: example_output_def)

lemma example_no_minor: "\<not> sublist ''GL_MINOR_VERSION'' (example_output False 0)"
proof
  assume "sublist ''GL_MINOR_VERSION'' (example_output False 0)"
  then have "sublist ''GL_MINOR_VERSION''
      (Generated_guard 0 @ Generated_baseline @ ''#define GL_MAJOR_VERSION 0x821B\<newline>'' @
       Spacer @ Generated_debugproc @
       ''typedef  void (APIENTRYP PFNGLCLEARPROC)  (GLbitfield mask);\<newline>'')"
    by (simp only: example_plain_output)
  then have "sublist ''GL_MINOR_VERSION'' (Generated_guard 0) \<or>
      sublist ''GL_MINOR_VERSION'' Generated_baseline \<or>
      sublist ''GL_MINOR_VERSION'' ''#define GL_MAJOR_VERSION 0x821B\<newline>'' \<or>
      sublist ''GL_MINOR_VERSION'' Spacer \<or>
      sublist ''GL_MINOR_VERSION'' Generated_debugproc \<or>
      sublist ''GL_MINOR_VERSION''
        ''typedef  void (APIENTRYP PFNGLCLEARPROC)  (GLbitfield mask);\<newline>''"
    by (rule needle_in_plain_output) simp
  moreover have "CHR ''M'' \<in> set ys" if "sublist ''GL_MINOR_VERSION'' ys" for ys
    using that by (rule sublist_needs_chars) simp
  moreover have "CHR ''M'' \<notin> set (Generated_guard 0)" "CHR ''M'' \<notin> set Generated_baseline"
      "CHR ''M'' \<notin> set Spacer" "CHR ''M'' \<notin> set Generated_debugproc"
    by (simp_all add: Generated_guard_def decimal_examples Generated_baseline_def Spacer_def
        Generated_debugproc_def)
  moreover have "\<not> sublist ''GL_MINOR_VERSION'' ''#define GL_MAJOR_VERSION 0x821B\<newline>''"
      "\<not> sublist ''GL_MINOR_VERSION''
         ''typedef  void (APIENTRYP PFNGLCLEARPROC)  (GLbitfield mask);\<newline>''"
    by code_simp+
  ultimately show False
    by blast
qed

lemma example_no_function_seed: "\<not> sublist ''glGetIntegerv'' (example_output False 0)"
proof
  assume "sublist ''glGetIntegerv'' (example_output False 0)"
  then have "sublist ''glGetIntegerv''
      (Generated_guard 0 @ Generated_baseline @ ''#define GL_MAJOR_VERSION 0x821B\<newline>'' @
       Spacer @ Generated_debugproc @
       ''typedef  void (APIENTRYP PFNGLCLEARPROC)  (GLbitfield mask);\<newline>'')"
    by (simp only: example_plain_output)
  then have "sublist ''glGetIntegerv'' (Generated_guard 0) \<or>
      sublist ''glGetIntegerv'' Generated_baseline \<or>
      sublist ''glGetIntegerv'' ''#define GL_MAJOR_VERSION 0x821B\<newline>'' \<or>
      sublist ''glGetIntegerv'' Spacer \<or>
      sublist ''glGetIntegerv'' Generated_debugproc \<or>
      sublist ''glGetIntegerv''
        ''typedef  void (APIENTRYP PFNGLCLEARPROC)  (GLbitfield mask);\<newline>''"
    by (rule needle_in_plain_output) simp
  moreover have "CHR ''v'' \<in> set ys" if "sublist ''glGetIntegerv'' ys" for ys
    using that by (rule sublist_needs_chars) simp
  moreover have "CHR ''v'' \<notin> set (Generated_guard 0)" "CHR ''v'' \<notin> set Spacer"
    by (simp_all add: Generated_guard_def decimal_examples Spacer_def)
  moreover have "\<not> sublist ''glGetIntegerv'' ''#define GL_MAJOR_VERSION 0x821B\<newline>''"
      "\<not> sublist ''glGetIntegerv''
         ''typedef  void (APIENTRYP PFNGLCLEARPROC)  (GLbitfield mask);\<newline>''"
    by code_simp+
  ultimately show False
    using baseline_names_no_seed by blast
qed

theorem seeds_declared_when_registry_has_them_witness:
  "GenerateOpenGLHeader (example_world 0) (example_settings False 0) =
     Inr \<lparr>Success = 0, Written = Some (example_output False 0), Errors = [],
          Printed = [completed_message 2 2 2]\<rparr> \<and>
   GetToken example_ArbHash
     (GetStringHash \<lparr>Chars = ''GL_MAJOR_VERSION'', Length = strlen ''GL_MAJOR_VERSION''\<rparr>) =
     Some 123 \<and>
   sublist ''#define GL_MAJOR_VERSION 0x821B\<newline>'' (example_output False 0)"
proof -
  let ?w = "example_world 0"
  let ?S = "example_settings False 0"
  let ?r = "\<lparr>Success = 0, Written = Some (example_output False 0), Errors = [],
             Printed = [completed_message 2 2 2]\<rparr>"
  have run: "GenerateOpenGLHeader ?w ?S = Inr ?r"
    by (rule example_world_run)
  have read: "ReadMultiFiles (files ?w) (Headers ?S) = (Some example_registry, [])"
    by (simp add: example_fields example_world_def example_read)
  have contract: "qsort_contract (qsort ?w)"
    by (simp add: example_world_def sort_by_contract)
  have known: "GetToken example_ArbHash
      (GetStringHash \<lparr>Chars = ''GL_MAJOR_VERSION'', Length = strlen ''GL_MAJOR_VERSION''\<rparr>) =
      Some 123"
    by (simp add: seed_hashes example_lookup)
  have line: "bytes_of \<lparr>Chars = Chars (Line (example_ArbHash ! 123)),
      Length = Length (Line (example_ArbHash ! 123)) + 1\<rparr> =
      ''#define GL_MAJOR_VERSION 0x821B\<newline>''"
    by (simp add: example_entries example_slices)
  from seeds_declared_when_registry_has_them [OF contract read example_parse_registry run]
  have "\<forall>i. GetToken example_ArbHash
        (GetStringHash \<lparr>Chars = ''GL_MAJOR_VERSION'', Length = strlen ''GL_MAJOR_VERSION''\<rparr>) =
        Some i \<longrightarrow>
      sublist (bytes_of \<lparr>Chars = Chars (Line (example_ArbHash ! i)),
                         Length = Length (Line (example_ArbHash ! i)) + 1\<rparr>)
        (example_output False 0)"
    by auto
  with known have "sublist (bytes_of \<lparr>Chars = Chars (Line (example_ArbHash ! 123)),
      Length = Length (Line (example_ArbHash ! 123)) + 1\<rparr>) (example_output False 0)"
    by blast
  with run known show ?thesis
    by (simp only: line simp_thms)
qed

text \<open>
  A seed the registry does not declare is not in the output.  The registry of the worked
  run declares neither \<^verbatim>\<open>GL_MINOR_VERSION\<close> nor \<^verbatim>\<open>glGetIntegerv\<close>, and the output of the
  run without boilerplate names neither.
\<close>

theorem seeds_missing_without_registry_entry:
  "GenerateOpenGLHeader (example_world 0) (example_settings False 0) =
     Inr \<lparr>Success = 0, Written = Some (example_output False 0), Errors = [],
          Printed = [completed_message 2 2 2]\<rparr> \<and>
   \<not> sublist ''GL_MINOR_VERSION'' (example_output False 0) \<and>
   \<not> sublist ''glGetIntegerv'' (example_output False 0)"
  using example_world_run [of 0 False 0] example_no_minor example_no_function_seed
  by (simp only: simp_thms)

end
